theory Spec2Isabelle
  imports Complex_Main "HOL-Library.Log_Nat" "HOL-Library.Word"
begin

section \<open>Numbers\<close>

text \<open>
  A JavaScript number is an IEEE 754 binary64 value. A finite one is a rational, and every
  arithmetic operation is the exact operation followed by rounding to the nearest
  representable value, ties to the even significand. \<open>fl\<close> is that rounding for 53
  significant bits. The exponent range is not bounded here: every value computed below is
  either zero or of a magnitude between \<open>2\<^sup>-\<^sup>6\<^sup>4\<close> and \<open>2\<^sup>6\<^sup>4\<close>, far inside the normal range
  of binary64, where this rounding and the hardware's agree. Integer arithmetic on values
  below \<open>2\<^sup>5\<^sup>3\<close> is exact and is written on \<open>int\<close> and \<open>nat\<close> directly.
\<close>

definition roundTiesToEven :: "rat \<Rightarrow> int" where
  "roundTiesToEven y =
     (let f = \<lfloor>y\<rfloor>; d = y - of_int f
      in if d < 1 / 2 then f else if 1 / 2 < d then f + 1 else if even f then f else f + 1)"

text \<open>For \<open>x > 0\<close>, the exponent \<open>e\<close> with \<open>2\<^sup>e \<le> x < 2\<^sup>e\<^sup>+\<^sup>1\<close>.\<close>

definition binExponent :: "rat \<Rightarrow> int" where
  "binExponent x =
     (let (p, q) = quotient_of x; k = bitlen p - bitlen q
      in if 2 powi k \<le> x then k else k - 1)"

definition fl :: "rat \<Rightarrow> rat" where
  "fl x =
     (if x = 0 then 0
      else let u = 2 powi (binExponent \<bar>x\<bar> - 52)
           in sgn x * of_int (roundTiesToEven (\<bar>x\<bar> / u)) * u)"

text \<open>A decimal literal of the source denotes the nearest binary64 value.\<close>

definition lit :: "rat \<Rightarrow> rat" where
  "lit x = fl x"

definition fadd :: "rat \<Rightarrow> rat \<Rightarrow> rat" where
  "fadd a b = fl (a + b)"

definition fsub :: "rat \<Rightarrow> rat \<Rightarrow> rat" where
  "fsub a b = fl (a - b)"

definition fmul :: "rat \<Rightarrow> rat \<Rightarrow> rat" where
  "fmul a b = fl (a * b)"

definition fdiv :: "rat \<Rightarrow> rat \<Rightarrow> rat" where
  "fdiv a b = fl (a / b)"

text \<open>
  \<^verbatim>\<open>x.toFixed(2)\<close> prints \<open>n / 100\<close> for the integer \<open>n\<close> nearest to \<open>100 x\<close> (the larger
  one of two equally near), computed on the exact value of \<open>\<bar>x\<bar>\<close>, with the sign in front;
  from \<open>10\<^sup>2\<^sup>1\<close> on it prints the number itself. \<open>toFixed2\<close> is the value of the printed
  decimal, and \<^verbatim>\<open>Number(x.toFixed(2))\<close> reads it back as the nearest binary64 value.
\<close>

definition toFixed2 :: "rat \<Rightarrow> rat" where
  "toFixed2 x =
     (let a = \<bar>x\<bar>
      in if 10 ^ 21 \<le> a then x
         else sgn x * (of_int \<lfloor>a * 100 + 1 / 2\<rfloor> / 100))"

definition numberToFixed2 :: "rat \<Rightarrow> rat" where
  "numberToFixed2 x = fl (toFixed2 x)"

text \<open>A number that may be \<^verbatim>\<open>NaN\<close>.\<close>

datatype jsnum = Num rat | NaN

text \<open>The remainder operator \<^verbatim>\<open>%\<close> on integers: the result has the sign of the dividend.\<close>

definition jsRem :: "int \<Rightarrow> int \<Rightarrow> int" where
  "jsRem a b = sgn a * (\<bar>a\<bar> mod \<bar>b\<bar>)"

section \<open>Strings\<close>

text \<open>
  A string is a list of code units. The type \<open>char\<close> holds the code units \<open>U+0000\<close> to
  \<open>U+00FF\<close>, for which the case mappings and the character classes of regular expressions
  are the ones below.
\<close>

definition toLowerChar :: "char \<Rightarrow> char" where
  "toLowerChar c =
     (let n = (of_char c :: nat)
      in if (65 \<le> n \<and> n \<le> 90) \<or> (192 \<le> n \<and> n \<le> 222 \<and> n \<noteq> 215)
         then char_of (n + 32) else c)"

definition toLowerCase :: "string \<Rightarrow> string" where
  "toLowerCase s = map toLowerChar s"

text \<open>The class \<^verbatim>\<open>\w\<close> is \<^verbatim>\<open>[A-Za-z0-9_]\<close>; on it \<^verbatim>\<open>toUpperCase\<close> changes the letters a to z only.\<close>

definition isWordChar :: "char \<Rightarrow> bool" where
  "isWordChar c =
     (let n = (of_char c :: nat)
      in (65 \<le> n \<and> n \<le> 90) \<or> (97 \<le> n \<and> n \<le> 122) \<or> (48 \<le> n \<and> n \<le> 57) \<or> n = 95)"

definition isSpaceChar :: "char \<Rightarrow> bool" where
  "isSpaceChar c = ((of_char c :: nat) \<in> {9, 10, 11, 12, 13, 32, 160})"

definition toUpperWordChar :: "char \<Rightarrow> char" where
  "toUpperWordChar c =
     (let n = (of_char c :: nat)
      in if 97 \<le> n \<and> n \<le> 122 then char_of (n - 32) else c)"

fun startsWith :: "string \<Rightarrow> string \<Rightarrow> bool" where
  "startsWith s [] = True"
| "startsWith [] (k # ks) = False"
| "startsWith (c # cs) (k # ks) = (c = k \<and> startsWith cs ks)"

fun includesStr :: "string \<Rightarrow> string \<Rightarrow> bool" where
  "includesStr [] k = (k = [])"
| "includesStr (c # cs) k = (startsWith (c # cs) k \<or> includesStr cs k)"

text \<open>
  \<^verbatim>\<open>label.replace(/(^|\s)\w/g, (match) => match.toUpperCase())\<close>: a match is a word
  character at the very start, or a white-space character followed by a word character;
  the search goes on behind each match.
\<close>

fun capitalizeRest :: "string \<Rightarrow> string" where
  "capitalizeRest (c # d # cs) =
     (if isSpaceChar c \<and> isWordChar d then c # toUpperWordChar d # capitalizeRest cs
      else c # capitalizeRest (d # cs))"
| "capitalizeRest cs = cs"

definition capitalizeWords :: "string \<Rightarrow> string" where
  "capitalizeWords label =
     (case label of
        [] \<Rightarrow> []
      | c # cs \<Rightarrow> if isWordChar c then toUpperWordChar c # capitalizeRest cs
                 else capitalizeRest (c # cs))"

text \<open>Integers in a template literal are printed in decimal.\<close>

fun decimal :: "nat \<Rightarrow> string" where
  "decimal n =
     (if n < 10 then [char_of (48 + n)] else decimal (n div 10) @ [char_of (48 + n mod 10)])"

declare decimal.simps [simp del]

definition showInt :: "int \<Rightarrow> string" where
  "showInt i = (if i < 0 then CHR ''-'' # decimal (nat (- i)) else decimal (nat i))"

section \<open>Data model\<close>

datatype ConstructionType = residential | commercial

record RoomTypeDefinition =
  rt_label :: string
  rt_color :: string

record RoomBoundary =
  bnd_x :: rat
  bnd_y :: rat
  bnd_width :: rat
  bnd_height :: rat

record RoomDetection =
  rd_id :: string
  rd_label :: string
  rd_type :: string
  rd_confidence :: jsnum
  rd_boundary :: RoomBoundary
  rd_color :: string
  rd_manual :: "bool option"

definition baseRoomTypes :: "RoomTypeDefinition list" where
  "baseRoomTypes =
     [\<lparr>rt_label = ''Living Room'', rt_color = ''#F97316''\<rparr>,
      \<lparr>rt_label = ''Kitchen'', rt_color = ''#0EA5E9''\<rparr>,
      \<lparr>rt_label = ''Bedroom'', rt_color = ''#A855F7''\<rparr>,
      \<lparr>rt_label = ''Bathroom'', rt_color = ''#10B981''\<rparr>,
      \<lparr>rt_label = ''Circulation'', rt_color = ''#F59E0B''\<rparr>,
      \<lparr>rt_label = ''Storage'', rt_color = ''#6B7280''\<rparr>,
      \<lparr>rt_label = ''Mechanical'', rt_color = ''#14B8A6''\<rparr>,
      \<lparr>rt_label = ''Workspace'', rt_color = ''#EF4444''\<rparr>]"

definition residentialBias :: "(string \<times> rat) list" where
  "residentialBias =
     [(''Living Room'', lit (11 / 10)), (''Kitchen'', lit (105 / 100)),
      (''Bedroom'', lit (12 / 10)), (''Bathroom'', lit (115 / 100))]"

definition commercialBias :: "(string \<times> rat) list" where
  "commercialBias =
     [(''Workspace'', lit (13 / 10)), (''Mechanical'', lit (11 / 10)),
      (''Storage'', lit (105 / 100)), (''Circulation'', lit (108 / 100))]"

definition randomRoomNames :: "string list" where
  "randomRoomNames =
     [''Suite'', ''Studio'', ''Flex Space'', ''Utility'', ''Lobby'', ''Conference'',
      ''Breakroom'', ''Core'']"

text \<open>
  The bias tables are object literals, so a key that is not their own is looked up in
  \<^verbatim>\<open>Object.prototype\<close>. Its members are functions (and, under \<^verbatim>\<open>__proto__\<close>, the prototype
  object itself): \<^verbatim>\<open>??\<close> keeps them, and their product with a number is \<^verbatim>\<open>NaN\<close>.
\<close>

definition objectPrototypeKeys :: "string list" where
  "objectPrototypeKeys =
     [''constructor'', ''__defineGetter__'', ''__defineSetter__'', ''hasOwnProperty'',
      ''__lookupGetter__'', ''__lookupSetter__'', ''isPrototypeOf'', ''propertyIsEnumerable'',
      ''toString'', ''valueOf'', ''__proto__'', ''toLocaleString'']"

text \<open>\<^verbatim>\<open>confidenceBase * (biasMap[label] ?? 1)\<close>\<close>

definition timesBias :: "rat \<Rightarrow> (string \<times> rat) list \<Rightarrow> string \<Rightarrow> jsnum" where
  "timesBias confidenceBase biasMap key =
     (case map_of biasMap key of
        Some bias \<Rightarrow> Num (fmul confidenceBase bias)
      | None \<Rightarrow> if key \<in> set objectPrototypeKeys then NaN else Num (fmul confidenceBase 1))"

section \<open>The seeded generator\<close>

text \<open>
  \<^verbatim>\<open>seededRandom\<close> returns a closure over a variable \<^verbatim>\<open>value\<close> of its own. The heap holds
  the \<^verbatim>\<open>value\<close> variables of all the closures made so far; a closure is the index of its
  variable, and is only ever called on a heap that holds it. The states are integers below
  \<open>2\<^sup>3\<^sup>1\<close> and their products with 16807 are below \<open>2\<^sup>4\<^sup>6\<close>, so the arithmetic on them is
  exact. The page index is an integer.
\<close>

type_synonym heap = "int list"

definition seededRandom :: "int \<Rightarrow> heap \<Rightarrow> nat \<times> heap" where
  "seededRandom seed h =
     (let value = jsRem seed 2147483647;
          value = (if value \<le> 0 then value + 2147483646 else value)
      in (length h, h @ [value]))"

definition nextValue :: "int \<Rightarrow> int" where
  "nextValue value = jsRem (value * 16807) 2147483647"

definition rand :: "nat \<Rightarrow> heap \<Rightarrow> rat \<times> heap" where
  "rand cell h =
     (let value = nextValue (h ! cell)
      in (fdiv (of_int (value - 1)) 2147483646, h[cell := value]))"

section \<open>Room colours\<close>

definition getRoomColor :: "string \<Rightarrow> RoomTypeDefinition list \<Rightarrow> string" where
  "getRoomColor type customTypes =
     (let match =
            (case find (\<lambda>def. rt_label def = type) baseRoomTypes of
               Some def \<Rightarrow> Some def
             | None \<Rightarrow> find (\<lambda>def. rt_label def = type) customTypes)
      in case match of Some def \<Rightarrow> rt_color def | None \<Rightarrow> ''#94A3B8'')"

section \<open>The mock detector\<close>

text \<open>
  The callback of \<^verbatim>\<open>Array.from({ length: roomCount }).map\<close>, for the room \<open>idx\<close>; \<open>rnd\<close> is
  the closure \<^verbatim>\<open>rand\<close>. The list \<open>definitions\<close> starts with the eight base types, so its
  element 0 exists.
\<close>

definition mockRoom ::
  "nat \<Rightarrow> int \<Rightarrow> ConstructionType \<Rightarrow> RoomTypeDefinition list \<Rightarrow> RoomTypeDefinition list \<Rightarrow>
   nat \<Rightarrow> heap \<Rightarrow> RoomDetection \<times> heap" where
  "mockRoom rnd pageIndex classification customTypes definitions idx h0 =
     (let (r1, h1) = rand rnd h0;
          typeIndex = \<lfloor>fmul r1 (of_nat (length definitions))\<rfloor>;
          selectedType =
            (if 0 \<le> typeIndex \<and> nat typeIndex < length definitions
             then definitions ! nat typeIndex else definitions ! 0);
          biasMap = (if classification = residential then residentialBias else commercialBias);
          (r2, h2) = rand rnd h1;
          confidenceBase = fadd (lit (65 / 100)) (fmul r2 (lit (3 / 10)));
          confidence =
            (case timesBias confidenceBase biasMap (rt_label selectedType) of
               NaN \<Rightarrow> NaN
             | Num c \<Rightarrow> Num (numberToFixed2 (min (lit (99 / 100)) c)));
          (r3, h3) = rand rnd h2;
          width = fadd (lit (25 / 100)) (fmul r3 (lit (45 / 100)));
          (r4, h4) = rand rnd h3;
          height = fadd (lit (2 / 10)) (fmul r4 (lit (4 / 10)));
          (r5, h5) = rand rnd h4;
          x = fmul r5 (fsub 1 width);
          (r6, h6) = rand rnd h5;
          y = fmul r6 (fsub 1 height)
      in (\<lparr>rd_id = ''room-'' @ showInt pageIndex @ ''-'' @ decimal idx,
           rd_label =
             (if idx mod length randomRoomNames < length randomRoomNames
              then randomRoomNames ! (idx mod length randomRoomNames)
              else rt_label selectedType),
           rd_type = rt_label selectedType,
           rd_confidence = confidence,
           rd_boundary = \<lparr>bnd_x = x, bnd_y = y, bnd_width = width, bnd_height = height\<rparr>,
           rd_color = getRoomColor (rt_label selectedType) customTypes,
           rd_manual = None\<rparr>,
          h6))"

fun mapRooms ::
  "nat \<Rightarrow> int \<Rightarrow> ConstructionType \<Rightarrow> RoomTypeDefinition list \<Rightarrow> RoomTypeDefinition list \<Rightarrow>
   nat list \<Rightarrow> heap \<Rightarrow> RoomDetection list \<times> heap" where
  "mapRooms rnd pageIndex classification customTypes definitions [] h = ([], h)"
| "mapRooms rnd pageIndex classification customTypes definitions (idx # idxs) h =
     (let (room, h1) = mockRoom rnd pageIndex classification customTypes definitions idx h;
          (rooms, h2) = mapRooms rnd pageIndex classification customTypes definitions idxs h1
      in (room # rooms, h2))"

definition mockAnalyzeRooms ::
  "int \<Rightarrow> ConstructionType \<Rightarrow> RoomTypeDefinition list \<Rightarrow> heap \<Rightarrow> RoomDetection list \<times> heap" where
  "mockAnalyzeRooms pageIndex classification customTypes h =
     (let (rnd, h0) = seededRandom (pageIndex + 1) h;
          (r, h1) = rand rnd h0;
          roomCount = max 3 \<lfloor>fmul r 6\<rfloor>;
          definitions = baseRoomTypes @ customTypes
      in mapRooms rnd pageIndex classification customTypes definitions [0..<nat roomCount] h1)"

text \<open>What the claims about the mock detector's boundaries ask of one boundary.\<close>

definition boundaryInPage :: "RoomBoundary \<Rightarrow> bool" where
  "boundaryInPage b =
     (0 \<le> bnd_x b \<and> 0 \<le> bnd_y b \<and> bnd_x b + bnd_width b \<le> 1 \<and> bnd_y b + bnd_height b \<le> 1 \<and>
      25 / 100 \<le> bnd_width b \<and> bnd_width b < 70 / 100 \<and>
      20 / 100 \<le> bnd_height b \<and> bnd_height b < 60 / 100)"

definition validState :: "int \<Rightarrow> bool" where
  "validState value = (1 \<le> value \<and> value \<le> 2147483646)"

section \<open>Room types from labels\<close>

definition labelToRoomType :: "string \<Rightarrow> string" where
  "labelToRoomType label =
     (let normalized = toLowerCase label
      in if includesStr normalized ''living'' then ''Living Room''
         else if includesStr normalized ''kitchen'' then ''Kitchen''
         else if includesStr normalized ''bed'' then ''Bedroom''
         else if includesStr normalized ''bath'' \<or> includesStr normalized ''rest''
           then ''Bathroom''
         else if includesStr normalized ''storage'' \<or> includesStr normalized ''closet''
           then ''Storage''
         else if includesStr normalized ''mechanical'' \<or> includesStr normalized ''utility''
           then ''Mechanical''
         else if includesStr normalized ''office'' \<or> includesStr normalized ''workspace''
           then ''Workspace''
         else if includesStr normalized ''corridor'' \<or> includesStr normalized ''hall''
           then ''Circulation''
         else capitalizeWords label)"



section \<open>The mask extractor\<close>

text \<open>
  \<^verbatim>\<open>PNG.sync.read\<close> belongs to a library; what it returns for a buffer is a parameter
  \<open>pngRead\<close> of the extractor: \<open>Inl\<close> the error it throws, or \<open>Inr\<close> the decoded image. A read
  of \<^verbatim>\<open>data\<close> behind its end gives \<^verbatim>\<open>undefined\<close>, which is not greater than zero.
\<close>

record PNG =
  png_width :: nat
  png_height :: nat
  png_data :: "8 word list"

definition alphaSet :: "PNG \<Rightarrow> nat \<Rightarrow> nat \<Rightarrow> bool" where
  "alphaSet png x y =
     (let pixelIndex = (y * png_width png + x) * 4 + 3
      in pixelIndex < length (png_data png) \<and> 0 < png_data png ! pixelIndex)"

text \<open>The state of the scan is \<open>(minX, minY, maxX, maxY)\<close>.\<close>

type_synonym scan = "int \<times> int \<times> int \<times> int"

definition scanPixel :: "PNG \<Rightarrow> nat \<Rightarrow> nat \<Rightarrow> scan \<Rightarrow> scan" where
  "scanPixel png y x s =
     (case s of (minX, minY, maxX, maxY) \<Rightarrow>
        if alphaSet png x y
        then (if int x < minX then int x else minX,
              if int y < minY then int y else minY,
              if maxX < int x then int x else maxX,
              if maxY < int y then int y else maxY)
        else (minX, minY, maxX, maxY))"

definition scanRow :: "PNG \<Rightarrow> nat \<Rightarrow> scan \<Rightarrow> scan" where
  "scanRow png y s = fold (scanPixel png y) [0..<png_width png] s"

definition scanMask :: "PNG \<Rightarrow> scan" where
  "scanMask png =
     fold (scanRow png) [0..<png_height png] (int (png_width png), int (png_height png), - 1, - 1)"

definition maskToBoundary ::
  "(8 word list \<Rightarrow> string + PNG) \<Rightarrow> 8 word list \<Rightarrow> string \<Rightarrow> rat \<Rightarrow> int \<Rightarrow> nat \<Rightarrow>
   RoomTypeDefinition list \<Rightarrow> RoomDetection option" where
  "maskToBoundary pngRead maskBuffer label score pageIndex idx customTypes =
     (case pngRead maskBuffer of
        Inl error \<Rightarrow> None
      | Inr png \<Rightarrow>
          (let width = png_width png; height = png_height png
           in case scanMask png of (minX, minY, maxX, maxY) \<Rightarrow>
                if maxX = - 1 \<or> maxY = - 1 then None
                else
                  (let roomType = labelToRoomType label
                   in Some
                        \<lparr>rd_id = ''hf-room-'' @ showInt pageIndex @ ''-'' @ decimal idx,
                         rd_label = roomType,
                         rd_type = roomType,
                         rd_confidence =
                           Num (numberToFixed2 (min (max score (lit (1 / 10))) (lit (99 / 100)))),
                         rd_boundary =
                           \<lparr>bnd_x = fdiv (of_int minX) (of_nat width),
                            bnd_y = fdiv (of_int minY) (of_nat height),
                            bnd_width = max (fdiv (of_int (maxX - minX)) (of_nat width)) (lit (5 / 100)),
                            bnd_height =
                              max (fdiv (of_int (maxY - minY)) (of_nat height)) (lit (5 / 100))\<rparr>,
                         rd_color = getRoomColor roomType customTypes,
                         rd_manual = None\<rparr>)))"

text \<open>
  The columns and the rows that hold a pixel whose alpha is above zero, in ascending order.
\<close>

definition opaqueXs :: "PNG \<Rightarrow> nat list" where
  "opaqueXs png =
     filter (\<lambda>x. list_ex (\<lambda>y. alphaSet png x y) [0..<png_height png]) [0..<png_width png]"

definition opaqueYs :: "PNG \<Rightarrow> nat list" where
  "opaqueYs png =
     filter (\<lambda>y. list_ex (\<lambda>x. alphaSet png x y) [0..<png_width png]) [0..<png_height png]"

section \<open>The segments of a page\<close>

text \<open>
  The segments are the answer of the remote model, and \<open>fromBase64\<close> is
  \<^verbatim>\<open>Buffer.from(_, "base64")\<close>; both come from outside.
\<close>

record Segment =
  seg_label :: "string option"
  seg_score :: "rat option"
  seg_mask :: "string option"

definition toPngBuffer :: "(string \<Rightarrow> 8 word list) \<Rightarrow> string \<Rightarrow> 8 word list option" where
  "toPngBuffer fromBase64 maskString =
     (if maskString = [] then None
      else if startsWith maskString ''data:image/png;base64,''
        then Some (fromBase64
               (takeWhile (\<lambda>c. c \<noteq> CHR '','') (drop 1 (dropWhile (\<lambda>c. c \<noteq> CHR '','') maskString))))
      else Some (fromBase64 maskString))"

text \<open>The body of the loop for the segment \<open>idx\<close>: the detection it pushes, if any.\<close>

definition segmentDetection ::
  "(8 word list \<Rightarrow> string + PNG) \<Rightarrow> (string \<Rightarrow> 8 word list) \<Rightarrow> int \<Rightarrow> RoomTypeDefinition list \<Rightarrow>
   nat \<Rightarrow> Segment \<Rightarrow> RoomDetection option" where
  "segmentDetection pngRead fromBase64 pageIndex customTypes idx segment =
     (case seg_mask segment of
        None \<Rightarrow> None
      | Some maskString \<Rightarrow>
          if maskString = [] then None
          else
            (case toPngBuffer fromBase64 maskString of
               None \<Rightarrow> None
             | Some maskBuffer \<Rightarrow>
                 if length maskBuffer = 0 then None
                 else maskToBoundary pngRead maskBuffer
                        (case seg_label segment of
                           Some label \<Rightarrow> label
                         | None \<Rightarrow> ''Region '' @ decimal (idx + 1))
                        (case seg_score segment of Some score \<Rightarrow> score | None \<Rightarrow> lit (5 / 10))
                        pageIndex idx customTypes))"

function segmentLoop ::
  "(8 word list \<Rightarrow> string + PNG) \<Rightarrow> (string \<Rightarrow> 8 word list) \<Rightarrow> int \<Rightarrow> RoomTypeDefinition list \<Rightarrow>
   Segment list \<Rightarrow> nat \<Rightarrow> RoomDetection list \<Rightarrow> RoomDetection list" where
  "segmentLoop pngRead fromBase64 pageIndex customTypes segments idx detections =
     (if idx < length segments
      then (case segmentDetection pngRead fromBase64 pageIndex customTypes idx (segments ! idx) of
              None \<Rightarrow>
                segmentLoop pngRead fromBase64 pageIndex customTypes segments (idx + 1) detections
            | Some detection \<Rightarrow>
                segmentLoop pngRead fromBase64 pageIndex customTypes segments (idx + 1)
                  (detections @ [detection]))
      else detections)"
  by pat_completeness auto
termination
  by (relation "measure (\<lambda>(pngRead, fromBase64, pageIndex, customTypes, segments, idx, detections).
        length segments - idx)") auto

declare segmentLoop.simps [simp del]

definition analyzePageWithHf ::
  "(8 word list \<Rightarrow> string + PNG) \<Rightarrow> (string \<Rightarrow> 8 word list) \<Rightarrow> Segment list \<Rightarrow> int \<Rightarrow>
   RoomTypeDefinition list \<Rightarrow> RoomDetection list" where
  "analyzePageWithHf pngRead fromBase64 segments pageIndex customTypes =
     segmentLoop pngRead fromBase64 pageIndex customTypes segments 0 []"

text \<open>
  The scan state that stands for a finite set of pixels: the least and the greatest of their
  coordinates, or the initial state if there is none.
\<close>

definition boundsOf :: "nat \<Rightarrow> nat \<Rightarrow> (nat \<times> nat) set \<Rightarrow> scan" where
  "boundsOf w h S =
     (if S = {} then (int w, int h, - 1, - 1)
      else (int (Min (fst ` S)), int (Min (snd ` S)), int (Max (fst ` S)), int (Max (snd ` S))))"

section \<open>Example inputs\<close>

text \<open>
  Small masks: one opaque pixel in the last of 21 columns; two opaque pixels at \<open>(1, 0)\<close> and
  \<open>(3, 1)\<close> of a 4 by 2 image; one opaque pixel at \<open>(1, 1)\<close> of a 2 by 2 image; a 2 by 1
  image whose alpha is zero everywhere. A decoder that knows two of them, a base64 decoder
  for three texts, and three segments of which the first cannot be decoded and the third
  is empty.
\<close>

definition lastColumnMask :: PNG where
  "lastColumnMask = \<lparr>png_width = 21, png_height = 1, png_data = replicate 83 0 @ [255]\<rparr>"

definition twoPixelMask :: PNG where
  "twoPixelMask =
     \<lparr>png_width = 4, png_height = 2, png_data = replicate 7 0 @ [255] @ replicate 23 0 @ [1]\<rparr>"

definition onePixelMask :: PNG where
  "onePixelMask = \<lparr>png_width = 2, png_height = 2, png_data = replicate 15 0 @ [7]\<rparr>"

definition emptyMask :: PNG where
  "emptyMask = \<lparr>png_width = 2, png_height = 1, png_data = [255, 255, 255, 0, 9, 9, 9, 0]\<rparr>"

definition examplePngRead :: "8 word list \<Rightarrow> string + PNG" where
  "examplePngRead buffer =
     (if buffer = [1] then Inr onePixelMask
      else if buffer = [2] then Inr emptyMask
      else Inl ''Invalid file signature'')"

definition exampleFromBase64 :: "string \<Rightarrow> 8 word list" where
  "exampleFromBase64 text = (if text = ''AQ=='' then [1] else if text = ''Ag=='' then [2] else [0])"

definition exampleSegments :: "Segment list" where
  "exampleSegments =
     [\<lparr>seg_label = Some ''kitchen'', seg_score = Some (9 / 10), seg_mask = Some ''AA==''\<rparr>,
      \<lparr>seg_label = None, seg_score = None, seg_mask = Some ''data:image/png;base64,AQ==''\<rparr>,
      \<lparr>seg_label = Some ''hall'', seg_score = Some (1 / 2), seg_mask = Some ''Ag==''\<rparr>]"

section \<open>Rounding\<close>

lemma rte_cases: "roundTiesToEven y = \<lfloor>y\<rfloor> \<or> roundTiesToEven y = \<lfloor>y\<rfloor> + 1"
  by (simp add: roundTiesToEven_def Let_def)

lemma rte_of_int: "roundTiesToEven (of_int n) = n"
  by (simp add: roundTiesToEven_def Let_def)

lemma rte_mono: "a \<le> b \<Longrightarrow> roundTiesToEven a \<le> roundTiesToEven b"
proof -
  assume ab: "a \<le> b"
  have fl: "\<lfloor>a\<rfloor> \<le> \<lfloor>b\<rfloor>" using ab by (rule floor_mono)
  show ?thesis
  proof (cases "\<lfloor>a\<rfloor> = \<lfloor>b\<rfloor>")
    case True
    then show ?thesis using ab by (auto simp: roundTiesToEven_def Let_def)
  next
    case False
    then have "\<lfloor>a\<rfloor> + 1 \<le> \<lfloor>b\<rfloor>" using fl by simp
    then show ?thesis using rte_cases [of a] rte_cases [of b] by linarith
  qed
qed

lemma rte_err: "\<bar>of_int (roundTiesToEven y) - y\<bar> \<le> 1 / 2"
proof -
  have "of_int \<lfloor>y\<rfloor> \<le> y" "y < of_int \<lfloor>y\<rfloor> + 1" by linarith+
  then show ?thesis by (auto simp: roundTiesToEven_def Let_def)
qed

lemma powi_pos: "0 < (2::rat) powi e"
  by (simp add: power_int_def)

lemma powi_mono: "a \<le> b \<Longrightarrow> (2::rat) powi a \<le> 2 powi b"
  by (rule power_int_increasing) simp_all

lemma binExponent_bounds:
  assumes "0 < x"
  shows "2 powi (binExponent x) \<le> x \<and> x < 2 powi (binExponent x + 1)"
proof -
  obtain p q where pq: "quotient_of x = (p, q)" by (cases "quotient_of x")
  have q: "0 < q" using pq quotient_of_denom_pos by blast
  have x: "x = of_int p / of_int q" using pq by (rule quotient_of_div)
  have p: "0 < p" using assms q x by (simp add: zero_less_divide_iff)
  define k where "k = bitlen p - bitlen q"
  have bp: "2 ^ nat (bitlen p - 1) \<le> p" "p < 2 ^ nat (bitlen p)" using bitlen_bounds [OF p] by auto
  have bq: "2 ^ nat (bitlen q - 1) \<le> q" "q < 2 ^ nat (bitlen q)" using bitlen_bounds [OF q] by auto
  have lp: "1 \<le> bitlen p" using p bitlen_eq_zero_iff [of p] bitlen_nonneg [of p] by linarith
  have lq: "1 \<le> bitlen q" using q bitlen_eq_zero_iff [of q] bitlen_nonneg [of q] by linarith
  have P1: "(2::rat) powi (bitlen p - 1) \<le> of_int p"
  proof -
    have "(of_int (2 ^ nat (bitlen p - 1)) :: rat) \<le> of_int p" using bp(1) by (simp only: of_int_le_iff)
    then show ?thesis using lp by (simp add: power_int_def)
  qed
  have P2: "of_int p < (2::rat) powi (bitlen p)"
  proof -
    have "(of_int p :: rat) < of_int (2 ^ nat (bitlen p))" using bp(2) by (simp only: of_int_less_iff)
    then show ?thesis using lp by (simp add: power_int_def)
  qed
  have Q1: "(2::rat) powi (bitlen q - 1) \<le> of_int q"
  proof -
    have "(of_int (2 ^ nat (bitlen q - 1)) :: rat) \<le> of_int q" using bq(1) by (simp only: of_int_le_iff)
    then show ?thesis using lq by (simp add: power_int_def)
  qed
  have Q2: "of_int q < (2::rat) powi (bitlen q)"
  proof -
    have "(of_int q :: rat) < of_int (2 ^ nat (bitlen q))" using bq(2) by (simp only: of_int_less_iff)
    then show ?thesis using lq by (simp add: power_int_def)
  qed
  have qpos: "(0::rat) < of_int q" using q by simp
  have lower: "2 powi (k - 1) \<le> x"
  proof -
    have "2 powi (k - 1) * of_int q \<le> (2::rat) powi (k - 1) * 2 powi (bitlen q)"
      using Q2 powi_pos [of "k - 1"] by (simp add: less_imp_le)
    also have "\<dots> = 2 powi (bitlen p - 1)" by (simp add: k_def power_int_add [symmetric])
    also have "\<dots> \<le> of_int p" by (rule P1)
    finally show ?thesis using qpos by (simp add: x pos_le_divide_eq)
  qed
  have upper: "x < 2 powi (k + 1)"
  proof -
    have "of_int p < (2::rat) powi (bitlen p)" by (rule P2)
    also have "\<dots> = 2 powi (k + 1) * 2 powi (bitlen q - 1)" by (simp add: k_def power_int_add [symmetric])
    also have "\<dots> \<le> 2 powi (k + 1) * of_int q"
      using Q1 powi_pos [of "k + 1"] by simp
    finally show ?thesis using qpos by (simp add: x pos_divide_less_eq)
  qed
  show ?thesis
  proof (cases "2 powi k \<le> x")
    case True
    then show ?thesis using upper by (simp add: binExponent_def pq k_def)
  next
    case False
    then show ?thesis using lower by (simp add: binExponent_def pq k_def)
  qed
qed

lemma binExponent_unique:
  assumes "2 powi e \<le> x" "x < 2 powi (e + 1)"
  shows "binExponent x = e"
proof -
  have x: "0 < x" using assms(1) powi_pos [of e] by linarith
  note b = binExponent_bounds [OF x]
  have "\<not> binExponent x + 1 \<le> e"
  proof
    assume "binExponent x + 1 \<le> e"
    then have "(2::rat) powi (binExponent x + 1) \<le> 2 powi e" by (rule powi_mono)
    then show False using b assms by linarith
  qed
  moreover have "\<not> e + 1 \<le> binExponent x"
  proof
    assume "e + 1 \<le> binExponent x"
    then have "(2::rat) powi (e + 1) \<le> 2 powi (binExponent x)" by (rule powi_mono)
    then show False using b assms by linarith
  qed
  ultimately show ?thesis by linarith
qed


lemma fl_0: "fl 0 = 0"
  by (simp add: fl_def)

lemma fl_minus: "fl (- x) = - fl x"
  by (simp add: fl_def Let_def)

lemma fl_binade:
  assumes "2 powi e \<le> x" "x < 2 powi (e + 1)"
  shows "fl x = of_int (roundTiesToEven (x / 2 powi (e - 52))) * 2 powi (e - 52)"
proof -
  have x: "0 < x" using assms(1) powi_pos [of e] by linarith
  have "binExponent x = e" using assms by (rule binExponent_unique)
  then show ?thesis using x by (simp add: fl_def Let_def)
qed

lemma fl_binade_bounds:
  assumes "2 powi e \<le> x" "x < 2 powi (e + 1)"
  shows "2 powi e \<le> fl x \<and> fl x \<le> 2 powi (e + 1)"
proof -
  let ?u = "(2::rat) powi (e - 52)"
  have u: "0 < ?u" by (rule powi_pos)
  have e1: "(2::rat) powi e = of_int (2 ^ 52) * ?u"
    by (simp add: power_int_diff)
  have e2: "(2::rat) powi (e + 1) = of_int (2 ^ 53) * ?u"
    by (simp add: power_int_diff power_int_add)
  have "of_int (2 ^ 52) \<le> x / ?u" using assms(1) u unfolding e1 by (simp add: pos_le_divide_eq)
  then have "roundTiesToEven (of_int (2 ^ 52)) \<le> roundTiesToEven (x / ?u)" by (rule rte_mono)
  then have lo: "2 ^ 52 \<le> roundTiesToEven (x / ?u)" by (simp only: rte_of_int)
  have "x / ?u \<le> of_int (2 ^ 53)" using assms(2) u unfolding e2 by (simp add: pos_divide_le_eq)
  then have "roundTiesToEven (x / ?u) \<le> roundTiesToEven (of_int (2 ^ 53))" by (rule rte_mono)
  then have hi: "roundTiesToEven (x / ?u) \<le> 2 ^ 53" by (simp only: rte_of_int)
  have lo': "(of_int (2 ^ 52) :: rat) \<le> of_int (roundTiesToEven (x / ?u))"
    using lo by (simp only: of_int_le_iff)
  have hi': "(of_int (roundTiesToEven (x / ?u)) :: rat) \<le> of_int (2 ^ 53)"
    using hi by (simp only: of_int_le_iff)
  have "of_int (2 ^ 52) * ?u \<le> fl x"
    unfolding fl_binade [OF assms] using lo' u by (simp only: mult_le_cancel_right_pos)
  moreover have "fl x \<le> of_int (2 ^ 53) * ?u"
    unfolding fl_binade [OF assms] using hi' u by (simp only: mult_le_cancel_right_pos)
  ultimately show ?thesis unfolding e1 e2 by simp
qed

lemma fl_mono_pos:
  assumes "0 < x" "x \<le> y"
  shows "fl x \<le> fl y"
proof -
  have y: "0 < y" using assms by linarith
  define e where "e = binExponent x"
  define e' where "e' = binExponent y"
  have bx: "2 powi e \<le> x" "x < 2 powi (e + 1)"
    using binExponent_bounds [OF assms(1)] by (simp_all add: e_def)
  have by': "2 powi e' \<le> y" "y < 2 powi (e' + 1)"
    using binExponent_bounds [OF y] by (simp_all add: e'_def)
  have ee: "e \<le> e'"
  proof (rule ccontr)
    assume "\<not> e \<le> e'"
    then have "e' + 1 \<le> e" by simp
    then have "(2::rat) powi (e' + 1) \<le> 2 powi e" by (rule powi_mono)
    then show False using bx by' assms by linarith
  qed
  show ?thesis
  proof (cases "e = e'")
    case True
    let ?u = "(2::rat) powi (e - 52)"
    have u: "0 < ?u" by (rule powi_pos)
    have "x / ?u \<le> y / ?u" using assms(2) u by (simp add: divide_right_mono)
    then have "roundTiesToEven (x / ?u) \<le> roundTiesToEven (y / ?u)" by (rule rte_mono)
    then have "(of_int (roundTiesToEven (x / ?u)) :: rat) \<le> of_int (roundTiesToEven (y / ?u))"
      by (simp only: of_int_le_iff)
    then have "of_int (roundTiesToEven (x / ?u)) * ?u \<le> of_int (roundTiesToEven (y / ?u)) * ?u"
      using u by (simp only: mult_le_cancel_right_pos)
    then show ?thesis using fl_binade [OF bx] fl_binade [OF by' [folded True]] by simp
  next
    case False
    then have "e + 1 \<le> e'" using ee by simp
    then have "(2::rat) powi (e + 1) \<le> 2 powi e'" by (rule powi_mono)
    then show ?thesis using fl_binade_bounds [OF bx] fl_binade_bounds [OF by'] by linarith
  qed
qed

lemma fl_pos:
  assumes "0 < x"
  shows "0 < fl x"
proof -
  note b = binExponent_bounds [OF assms]
  have "2 powi binExponent x \<le> fl x"
    using fl_binade_bounds [OF conjunct1 [OF b] conjunct2 [OF b]] by simp
  then show ?thesis using powi_pos [of "binExponent x"] by linarith
qed

lemma fl_mono: "x \<le> y \<Longrightarrow> fl x \<le> fl y"
proof -
  assume xy: "x \<le> y"
  consider "0 < x" | "x = 0" "y = 0" | "x = 0" "0 < y" | "x < 0" "y < 0" | "x < 0" "y = 0" | "x < 0" "0 < y"
    using xy by linarith
  then show ?thesis
  proof cases
    case 1
    then show ?thesis using xy by (simp add: fl_mono_pos)
  next
    case 2
    then show ?thesis by simp
  next
    case 3
    then show ?thesis using fl_pos [of y] by (simp add: fl_0)
  next
    case 4
    then have "fl (- y) \<le> fl (- x)" using xy by (intro fl_mono_pos) simp_all
    then show ?thesis by (simp add: fl_minus)
  next
    case 5
    then have "0 < fl (- x)" by (intro fl_pos) simp
    then show ?thesis using 5 by (simp add: fl_minus fl_0)
  next
    case 6
    then have "0 < fl (- x)" "0 < fl y" by (simp_all add: fl_pos)
    then show ?thesis by (simp add: fl_minus)
  qed
qed

lemma fl_nonneg: "0 \<le> x \<Longrightarrow> 0 \<le> fl x"
  using fl_mono [of 0 x] by (simp add: fl_0)

lemma fl_upper:
  assumes "0 < x"
  shows "fl x \<le> x * (1 + 1 / 2 ^ 53)"
proof -
  define e where "e = binExponent x"
  have bx: "2 powi e \<le> x" "x < 2 powi (e + 1)"
    using binExponent_bounds [OF assms] by (simp_all add: e_def)
  let ?u = "(2::rat) powi (e - 52)"
  have u: "0 < ?u" by (rule powi_pos)
  have e1: "(2::rat) powi e = 2 ^ 52 * ?u"
    by (simp add: power_int_diff)
  have "of_int (roundTiesToEven (x / ?u)) - x / ?u \<le> 1 / 2"
    using rte_err [of "x / ?u"] by linarith
  then have "(of_int (roundTiesToEven (x / ?u)) - x / ?u) * ?u \<le> 1 / 2 * ?u"
    using u by (simp only: mult_le_cancel_right_pos)
  then have "fl x - x \<le> ?u / 2"
    unfolding fl_binade [OF bx] using u by (simp add: algebra_simps)
  moreover have "?u / 2 \<le> x / 2 ^ 53"
    using bx(1) unfolding e1 by simp
  ultimately show ?thesis by (simp add: algebra_simps)
qed

lemma fl_representable:
  assumes "0 < m" "m < 2 ^ 53"
  shows "fl (of_int m * 2 powi k) = of_int m * 2 powi k"
proof -
  let ?x = "of_int m * (2::rat) powi k"
  have x: "0 < ?x" using assms(1) powi_pos [of k] by simp
  define e where "e = binExponent ?x"
  have bx: "2 powi e \<le> ?x" "?x < 2 powi (e + 1)"
    using binExponent_bounds [OF x] by (simp_all add: e_def)
  have mlt: "?x < 2 powi (k + 53)"
  proof -
    have "(of_int m :: rat) < of_int (2 ^ 53)" using assms(2) by (simp only: of_int_less_iff)
    then have "of_int m * (2::rat) powi k < of_int (2 ^ 53) * 2 powi k"
      using powi_pos [of k] by (simp only: mult_less_cancel_right_pos)
    also have "\<dots> = 2 powi (k + 53)" by (simp add: power_int_add)
    finally show ?thesis .
  qed
  have ke: "k \<ge> e - 52"
  proof (rule ccontr)
    assume "\<not> k \<ge> e - 52"
    then have "k + 53 \<le> e" by simp
    then have "(2::rat) powi (k + 53) \<le> 2 powi e" by (rule powi_mono)
    then show False using bx(1) mlt by linarith
  qed
  define j where "j = nat (k - (e - 52))"
  have kj: "k = (e - 52) + int j" using ke by (simp add: j_def)
  have "?x / 2 powi (e - 52) = of_int (m * 2 ^ j)"
    by (simp add: kj power_int_add)
  then have "roundTiesToEven (?x / 2 powi (e - 52)) = m * 2 ^ j"
    by (simp only: rte_of_int)
  then show ?thesis unfolding fl_binade [OF bx] by (simp add: kj power_int_add)
qed


lemma fl_of_nat: "n < 2 ^ 53 \<Longrightarrow> fl (of_nat n) = of_nat n"
proof (cases "n = 0")
  case True
  then show ?thesis by (simp add: fl_0)
next
  case False
  assume "n < 2 ^ 53"
  then have "int n < 2 ^ 53" by (metis of_nat_less_iff of_nat_numeral of_nat_power)
  then show ?thesis using fl_representable [of "int n" 0] False by simp
qed

section \<open>The generator's states and outputs\<close>

lemma rmax_eval: "fl (2147483645 / 2147483646) = 2147483647 / 2147483648"
  by code_simp

lemma mod_m_bounds: "0 \<le> (a::int) mod 2147483647 \<and> a mod 2147483647 \<le> 2147483646"
proof -
  have m: "(0::int) < 2147483647" by simp
  from pos_mod_bound [OF m, of a] pos_mod_sign [OF m, of a] show ?thesis by linarith
qed

lemma jsRem_pos: "0 \<le> a \<Longrightarrow> jsRem a 2147483647 = a mod 2147483647"
  by (cases "a = 0") (simp_all add: jsRem_def)

lemma nextValue_range: "0 \<le> v \<Longrightarrow> 0 \<le> nextValue v \<and> nextValue v \<le> 2147483646"
  using mod_m_bounds [of "v * 16807"] by (simp add: nextValue_def jsRem_pos)

lemma nextValue_valid:
  assumes "1 \<le> v" "v \<le> 2147483646"
  shows "1 \<le> nextValue v \<and> nextValue v \<le> 2147483646"
proof -
  have nv: "nextValue v = (v * 16807) mod 2147483647"
    using assms by (simp add: nextValue_def jsRem_pos)
  have "(v * 16807) mod 2147483647 \<noteq> 0"
  proof
    assume "(v * 16807) mod 2147483647 = 0"
    then have "2147483647 dvd v * 16807" by (simp only: dvd_eq_mod_eq_0)
    then have "2147483647 dvd v * 16807 * 1407677000" by (rule dvd_mult2)
    moreover have "v * 16807 * 1407677000 = v + 2147483647 * (v * 11017)" by simp
    ultimately have "2147483647 dvd v + 2147483647 * (v * 11017)" by (simp only:)
    moreover have "(2147483647::int) dvd 2147483647 * (v * 11017)" by (rule dvd_triv_left)
    ultimately have "2147483647 dvd v" by (simp only: dvd_add_left_iff)
    then have "2147483647 \<le> v" using assms(1) by (intro zdvd_imp_le) simp_all
    then show False using assms(2) by simp
  qed
  then show ?thesis using nv mod_m_bounds [of "v * 16807"] by linarith
qed

lemma seed_range:
  "0 \<le> (let value = jsRem seed 2147483647 in if value \<le> 0 then value + 2147483646 else value) \<and>
   (let value = jsRem seed 2147483647 in if value \<le> 0 then value + 2147483646 else value) \<le> 2147483646"
proof (cases "0 \<le> seed")
  case True
  show ?thesis using True mod_m_bounds [of seed] by (simp add: jsRem_pos Let_def)
next
  case False
  then have "jsRem seed 2147483647 = - ((- seed) mod 2147483647)" by (simp add: jsRem_def)
  then show ?thesis using mod_m_bounds [of "- seed"] by (simp add: Let_def)
qed

lemma seed_valid:
  "1 \<le> seed \<Longrightarrow>
   1 \<le> (let value = jsRem seed 2147483647 in if value \<le> 0 then value + 2147483646 else value)"
  by (simp add: jsRem_pos Let_def)

lemma rand_fresh:
  "rand (length g) (g @ [v]) = (fdiv (of_int (nextValue v - 1)) 2147483646, g @ [nextValue v])"
  by (simp add: rand_def Let_def)

lemma emit_upper:
  assumes "v \<le> 2147483646"
  shows "fdiv (of_int (v - 1)) 2147483646 \<le> 2147483647 / 2147483648"
proof -
  have "(of_int (v - 1) :: rat) \<le> of_int 2147483645" using assms by simp
  then have "(of_int (v - 1) :: rat) / 2147483646 \<le> 2147483645 / 2147483646" by simp
  then have "fl (of_int (v - 1) / 2147483646) \<le> fl (2147483645 / 2147483646)" by (rule fl_mono)
  then show ?thesis by (simp add: fdiv_def rmax_eval)
qed

lemma emit_lower:
  assumes "1 \<le> v"
  shows "0 \<le> fdiv (of_int (v - 1)) 2147483646"
proof -
  have "(0::rat) \<le> of_int (v - 1)" using assms by simp
  then have "(0::rat) \<le> of_int (v - 1) / 2147483646" by simp
  then show ?thesis unfolding fdiv_def by (rule fl_nonneg)
qed

lemma width_bounds:
  assumes "0 \<le> r" "r \<le> 2147483647 / 2147483648"
  shows "25 / 100 \<le> fadd (lit (25 / 100)) (fmul r (lit (45 / 100))) \<and>
         fadd (lit (25 / 100)) (fmul r (lit (45 / 100))) < 70 / 100"
proof -
  have c: "0 \<le> lit (45 / 100)" unfolding lit_def by (rule fl_nonneg) simp
  have q: "lit (25 / 100) = 25 / 100" unfolding lit_def by code_simp
  have t0: "0 \<le> fmul r (lit (45 / 100))"
    unfolding fmul_def using assms(1) c by (intro fl_nonneg mult_nonneg_nonneg)
  have "r * lit (45 / 100) \<le> 2147483647 / 2147483648 * lit (45 / 100)"
    using assms(2) c by (rule mult_right_mono)
  then have t1: "fmul r (lit (45 / 100)) \<le> fmul (2147483647 / 2147483648) (lit (45 / 100))"
    unfolding fmul_def by (rule fl_mono)
  have "fl (25 / 100) \<le> fl (lit (25 / 100) + fmul r (lit (45 / 100)))"
    using t0 q by (intro fl_mono) simp
  then have lo: "25 / 100 \<le> fadd (lit (25 / 100)) (fmul r (lit (45 / 100)))"
    using q by (simp add: fadd_def lit_def)
  have "fadd (lit (25 / 100)) (fmul r (lit (45 / 100)))
        \<le> fadd (lit (25 / 100)) (fmul (2147483647 / 2147483648) (lit (45 / 100)))"
    unfolding fadd_def using t1 by (intro fl_mono) simp
  moreover have "fadd (lit (25 / 100)) (fmul (2147483647 / 2147483648) (lit (45 / 100))) < 70 / 100"
    by code_simp
  ultimately show ?thesis using lo by linarith
qed

lemma height_bounds:
  assumes "0 \<le> r" "r \<le> 2147483647 / 2147483648"
  shows "20 / 100 \<le> fadd (lit (2 / 10)) (fmul r (lit (4 / 10))) \<and>
         fadd (lit (2 / 10)) (fmul r (lit (4 / 10))) < 60 / 100"
proof -
  have c: "0 \<le> lit (4 / 10)" unfolding lit_def by (rule fl_nonneg) simp
  have q: "20 / 100 \<le> fl (lit (2 / 10))" unfolding lit_def by code_simp
  have t0: "0 \<le> fmul r (lit (4 / 10))"
    unfolding fmul_def using assms(1) c by (intro fl_nonneg mult_nonneg_nonneg)
  have "r * lit (4 / 10) \<le> 2147483647 / 2147483648 * lit (4 / 10)"
    using assms(2) c by (rule mult_right_mono)
  then have t1: "fmul r (lit (4 / 10)) \<le> fmul (2147483647 / 2147483648) (lit (4 / 10))"
    unfolding fmul_def by (rule fl_mono)
  have "fl (lit (2 / 10)) \<le> fl (lit (2 / 10) + fmul r (lit (4 / 10)))"
    using t0 by (intro fl_mono) simp
  then have lo: "20 / 100 \<le> fadd (lit (2 / 10)) (fmul r (lit (4 / 10)))"
    using q by (simp add: fadd_def)
  have "fadd (lit (2 / 10)) (fmul r (lit (4 / 10)))
        \<le> fadd (lit (2 / 10)) (fmul (2147483647 / 2147483648) (lit (4 / 10)))"
    unfolding fadd_def using t1 by (intro fl_mono) simp
  moreover have "fadd (lit (2 / 10)) (fmul (2147483647 / 2147483648) (lit (4 / 10))) < 60 / 100"
    by code_simp
  ultimately show ?thesis using lo by linarith
qed

lemma placement_bounds:
  assumes r: "0 \<le> r" "r \<le> 2147483647 / 2147483648" and s: "0 < s" "s < 1"
  shows "0 \<le> fmul r (fsub 1 s) \<and> fmul r (fsub 1 s) + s \<le> 1"
proof -
  let ?u = "1 + 1 / 2 ^ 53 :: rat"
  let ?d = "fsub 1 s"
  have d0: "0 < ?d" unfolding fsub_def using s by (intro fl_pos) simp
  have d1: "?d \<le> (1 - s) * ?u" unfolding fsub_def using s by (intro fl_upper) simp
  have lo: "0 \<le> fmul r ?d"
    unfolding fmul_def using r(1) d0 by (intro fl_nonneg mult_nonneg_nonneg) simp_all
  have hi: "fmul r ?d \<le> 1 - s"
  proof (cases "r = 0")
    case True
    then show ?thesis using s by (simp add: fmul_def fl_0)
  next
    case False
    then have rd: "0 < r * ?d" using r(1) d0 by simp
    have "fmul r ?d \<le> r * ?d * ?u" unfolding fmul_def using rd by (rule fl_upper)
    also have "\<dots> \<le> 2147483647 / 2147483648 * ?d * ?u"
      using r(2) d0 by (intro mult_right_mono) simp_all
    also have "\<dots> \<le> 2147483647 / 2147483648 * ((1 - s) * ?u) * ?u"
      using d1 by (intro mult_right_mono mult_left_mono) simp_all
    also have "\<dots> = (2147483647 / 2147483648 * ?u * ?u) * (1 - s)" by (simp only: mult_ac)
    also have "\<dots> \<le> 1 * (1 - s)"
      using s by (intro mult_right_mono) simp_all
    finally show ?thesis by simp
  qed
  show ?thesis using lo hi by simp
qed

lemma boundary_ok:
  assumes "0 \<le> r3" "r3 \<le> 2147483647 / 2147483648" "0 \<le> r4" "r4 \<le> 2147483647 / 2147483648"
    "0 \<le> r5" "r5 \<le> 2147483647 / 2147483648" "0 \<le> r6" "r6 \<le> 2147483647 / 2147483648"
  shows "boundaryInPage
           \<lparr>bnd_x = fmul r5 (fsub 1 (fadd (lit (25 / 100)) (fmul r3 (lit (45 / 100))))),
            bnd_y = fmul r6 (fsub 1 (fadd (lit (2 / 10)) (fmul r4 (lit (4 / 10))))),
            bnd_width = fadd (lit (25 / 100)) (fmul r3 (lit (45 / 100))),
            bnd_height = fadd (lit (2 / 10)) (fmul r4 (lit (4 / 10)))\<rparr>"
proof -
  note w = width_bounds [OF assms(1,2)]
  note h = height_bounds [OF assms(3,4)]
  have px: "0 \<le> fmul r5 (fsub 1 (fadd (lit (25 / 100)) (fmul r3 (lit (45 / 100))))) \<and>
            fmul r5 (fsub 1 (fadd (lit (25 / 100)) (fmul r3 (lit (45 / 100)))))
              + fadd (lit (25 / 100)) (fmul r3 (lit (45 / 100))) \<le> 1"
    using w by (intro placement_bounds assms) linarith+
  have py: "0 \<le> fmul r6 (fsub 1 (fadd (lit (2 / 10)) (fmul r4 (lit (4 / 10))))) \<and>
            fmul r6 (fsub 1 (fadd (lit (2 / 10)) (fmul r4 (lit (4 / 10)))))
              + fadd (lit (2 / 10)) (fmul r4 (lit (4 / 10))) \<le> 1"
    using h by (intro placement_bounds assms) linarith+
  show ?thesis using w h px py by (simp add: boundaryInPage_def)
qed

lemma validState_next: "validState v \<Longrightarrow> validState (nextValue v)"
  using nextValue_valid [of v] by (simp add: validState_def)

lemma emit_unit:
  "validState v \<Longrightarrow> 0 \<le> fdiv (of_int (v - 1)) 2147483646 \<and> fdiv (of_int (v - 1)) 2147483646 \<le> 2147483647 / 2147483648"
  using emit_lower [of v] emit_upper [of v] by (simp add: validState_def)

lemma mockRoom_fresh:
  "\<exists>room v'. (\<forall>g. mockRoom (length g) p c ct defs idx (g @ [v]) = (room, g @ [v'])) \<and>
     (validState v \<longrightarrow> validState v' \<and> boundaryInPage (rd_boundary room))"
proof -
  define v1 where "v1 = nextValue v"
  define v2 where "v2 = nextValue v1"
  define v3 where "v3 = nextValue v2"
  define v4 where "v4 = nextValue v3"
  define v5 where "v5 = nextValue v4"
  define v6 where "v6 = nextValue v5"
  have run: "\<exists>room. (\<forall>g. mockRoom (length g) p c ct defs idx (g @ [v]) = (room, g @ [v6])) \<and>
     rd_boundary room =
       \<lparr>bnd_x = fmul (fdiv (of_int (v5 - 1)) 2147483646)
                  (fsub 1 (fadd (lit (25 / 100)) (fmul (fdiv (of_int (v3 - 1)) 2147483646) (lit (45 / 100))))),
        bnd_y = fmul (fdiv (of_int (v6 - 1)) 2147483646)
                  (fsub 1 (fadd (lit (2 / 10)) (fmul (fdiv (of_int (v4 - 1)) 2147483646) (lit (4 / 10))))),
        bnd_width = fadd (lit (25 / 100)) (fmul (fdiv (of_int (v3 - 1)) 2147483646) (lit (45 / 100))),
        bnd_height = fadd (lit (2 / 10)) (fmul (fdiv (of_int (v4 - 1)) 2147483646) (lit (4 / 10)))\<rparr>"
    by (simp add: mockRoom_def rand_fresh Let_def v1_def v2_def v3_def v4_def v5_def v6_def)
  then obtain room where
    room: "\<forall>g. mockRoom (length g) p c ct defs idx (g @ [v]) = (room, g @ [v6])"
    and bnd: "rd_boundary room =
       \<lparr>bnd_x = fmul (fdiv (of_int (v5 - 1)) 2147483646)
                  (fsub 1 (fadd (lit (25 / 100)) (fmul (fdiv (of_int (v3 - 1)) 2147483646) (lit (45 / 100))))),
        bnd_y = fmul (fdiv (of_int (v6 - 1)) 2147483646)
                  (fsub 1 (fadd (lit (2 / 10)) (fmul (fdiv (of_int (v4 - 1)) 2147483646) (lit (4 / 10))))),
        bnd_width = fadd (lit (25 / 100)) (fmul (fdiv (of_int (v3 - 1)) 2147483646) (lit (45 / 100))),
        bnd_height = fadd (lit (2 / 10)) (fmul (fdiv (of_int (v4 - 1)) 2147483646) (lit (4 / 10)))\<rparr>"
    by blast
  have ok: "validState v6 \<and> boundaryInPage (rd_boundary room)" if "validState v"
  proof -
    have s1: "validState v1" using that unfolding v1_def by (rule validState_next)
    have s2: "validState v2" using s1 unfolding v2_def by (rule validState_next)
    have s3: "validState v3" using s2 unfolding v3_def by (rule validState_next)
    have s4: "validState v4" using s3 unfolding v4_def by (rule validState_next)
    have s5: "validState v5" using s4 unfolding v5_def by (rule validState_next)
    have s6: "validState v6" using s5 unfolding v6_def by (rule validState_next)
    show ?thesis
      unfolding bnd using s6 emit_unit [OF s3] emit_unit [OF s4] emit_unit [OF s5] emit_unit [OF s6]
      by (intro conjI boundary_ok) simp_all
  qed
  show ?thesis using room ok by blast
qed

lemma mapRooms_fresh:
  "\<exists>rooms v'. (\<forall>g. mapRooms (length g) p c ct defs idxs (g @ [v]) = (rooms, g @ [v'])) \<and>
     length rooms = length idxs \<and>
     (validState v \<longrightarrow> (\<forall>room \<in> set rooms. boundaryInPage (rd_boundary room)))"
proof (induction idxs arbitrary: v)
  case Nil
  show ?case by simp
next
  case (Cons idx idxs)
  obtain room v1 where
    r: "\<forall>g. mockRoom (length g) p c ct defs idx (g @ [v]) = (room, g @ [v1])"
    and rv: "validState v \<longrightarrow> validState v1 \<and> boundaryInPage (rd_boundary room)"
    using mockRoom_fresh [of p c ct defs idx v] by blast
  obtain rooms v2 where
    m: "\<forall>g. mapRooms (length g) p c ct defs idxs (g @ [v1]) = (rooms, g @ [v2])"
    and len: "length rooms = length idxs"
    and mv: "validState v1 \<longrightarrow> (\<forall>room \<in> set rooms. boundaryInPage (rd_boundary room))"
    using Cons.IH [of v1] by blast
  have "\<forall>g. mapRooms (length g) p c ct defs (idx # idxs) (g @ [v]) = (room # rooms, g @ [v2])"
    using r m by simp
  moreover have "length (room # rooms) = length (idx # idxs)" using len by simp
  moreover have "validState v \<longrightarrow> (\<forall>room \<in> set (room # rooms). boundaryInPage (rd_boundary room))"
    using rv mv by simp
  ultimately show ?case by blast
qed

lemma roomCount_range:
  assumes "0 \<le> v" "v \<le> 2147483646"
  shows "3 \<le> max 3 \<lfloor>fmul (fdiv (of_int (nextValue v - 1)) 2147483646) 6\<rfloor> \<and>
         max 3 \<lfloor>fmul (fdiv (of_int (nextValue v - 1)) 2147483646) 6\<rfloor> \<le> 5"
proof -
  let ?r = "fdiv (of_int (nextValue v - 1)) 2147483646"
  have "?r \<le> 2147483647 / 2147483648"
    using nextValue_range [OF assms(1)] by (intro emit_upper) simp
  then have "?r * 6 \<le> 2147483647 / 2147483648 * 6" by simp
  then have "fmul ?r 6 \<le> fmul (2147483647 / 2147483648) 6" unfolding fmul_def by (rule fl_mono)
  moreover have "fmul (2147483647 / 2147483648) 6 < 6" by code_simp
  ultimately have "fmul ?r 6 < 6" by linarith
  then have "\<lfloor>fmul ?r 6\<rfloor> < 6" by (simp add: floor_less_iff)
  then show ?thesis by simp
qed

lemma mockAnalyzeRooms_fresh:
  "\<exists>rooms v'. (\<forall>h. mockAnalyzeRooms p c ct h = (rooms, h @ [v'])) \<and>
     3 \<le> length rooms \<and> length rooms \<le> 5 \<and>
     (0 \<le> p \<longrightarrow> (\<forall>room \<in> set rooms. boundaryInPage (rd_boundary room)))"
proof -
  define v0 where
    "v0 = (let value = jsRem (p + 1) 2147483647 in if value \<le> 0 then value + 2147483646 else value)"
  define n where "n = max 3 \<lfloor>fmul (fdiv (of_int (nextValue v0 - 1)) 2147483646) 6\<rfloor>"
  have v0: "0 \<le> v0" "v0 \<le> 2147483646" using seed_range [of "p + 1"] by (simp_all add: v0_def)
  have n: "3 \<le> n" "n \<le> 5" using roomCount_range [OF v0] by (simp_all add: n_def)
  obtain rooms v' where
    m: "\<forall>g. mapRooms (length g) p c ct (baseRoomTypes @ ct) [0..<nat n] (g @ [nextValue v0]) = (rooms, g @ [v'])"
    and len: "length rooms = length [0..<nat n]"
    and ok: "validState (nextValue v0) \<longrightarrow> (\<forall>room \<in> set rooms. boundaryInPage (rd_boundary room))"
    using mapRooms_fresh [of p c ct "baseRoomTypes @ ct" "[0..<nat n]" "nextValue v0"] by blast
  have sr: "seededRandom (p + 1) h = (length h, h @ [v0])" for h
    by (simp add: seededRandom_def v0_def Let_def)
  have "\<forall>h. mockAnalyzeRooms p c ct h = (rooms, h @ [v'])"
    using m unfolding mockAnalyzeRooms_def sr by (simp add: rand_fresh Let_def n_def)
  moreover have "3 \<le> length rooms \<and> length rooms \<le> 5" using len n by (simp, linarith)
  moreover have "\<forall>room \<in> set rooms. boundaryInPage (rd_boundary room)" if "0 \<le> p"
  proof -
    have "1 \<le> v0" using that seed_valid [of "p + 1"] by (simp add: v0_def)
    then have "validState v0" using v0 by (simp add: validState_def)
    then have "validState (nextValue v0)" by (rule validState_next)
    then show ?thesis using ok by simp
  qed
  ultimately show ?thesis by blast
qed


section \<open>Properties of the mock detector\<close>

text \<open>
  C1. The mock detector is deterministic and has no side effect. Whatever the heap holds
  when it is called, the same page index, classification and custom types give the same
  list of detections (identifiers, labels, types, confidences, boundaries and colours, in
  the same order), and the heap afterwards is the heap before with one new cell, the
  variable of the generator made by this call: no cell that existed is changed or read.
\<close>

theorem mockAnalyzeRooms_deterministic:
  "fst (mockAnalyzeRooms pageIndex classification customTypes h) =
     fst (mockAnalyzeRooms pageIndex classification customTypes h') \<and>
   (\<exists>value. snd (mockAnalyzeRooms pageIndex classification customTypes h) = h @ [value])"
  using mockAnalyzeRooms_fresh [of pageIndex classification customTypes] by fastforce




section \<open>Substrings and the rule list\<close>






section \<open>The scan of a mask\<close>

lemma scanPixel_boundsOf:
  assumes fin: "finite S" and x: "x < png_width png" and y: "y < png_height png"
  shows "scanPixel png y x (boundsOf (png_width png) (png_height png) S) =
         boundsOf (png_width png) (png_height png) (if alphaSet png x y then insert (x, y) S else S)"
proof (cases "alphaSet png x y")
  case False
  then show ?thesis by (simp add: scanPixel_def boundsOf_def)
next
  case True
  show ?thesis
  proof (cases "S = {}")
    case True
    then show ?thesis using \<open>alphaSet png x y\<close> x y by (simp add: scanPixel_def boundsOf_def)
  next
    case False
    have f1: "finite (fst ` S)" "fst ` S \<noteq> {}" using fin False by simp_all
    have f2: "finite (snd ` S)" "snd ` S \<noteq> {}" using fin False by simp_all
    show ?thesis using \<open>alphaSet png x y\<close> False
      by (simp add: scanPixel_def boundsOf_def Min_insert [OF f1] Min_insert [OF f2]
          Max_insert [OF f1] Max_insert [OF f2] min_def max_def)
  qed
qed

lemma scanRow_prefix:
  assumes fin: "finite S" and y: "y < png_height png"
  shows "n \<le> png_width png \<Longrightarrow>
         fold (scanPixel png y) [0..<n] (boundsOf (png_width png) (png_height png) S) =
         boundsOf (png_width png) (png_height png) (S \<union> {(x, y') . y' = y \<and> x < n \<and> alphaSet png x y})"
proof (induction n)
  case 0
  show ?case by simp
next
  case (Suc n)
  let ?T = "S \<union> {(x, y') . y' = y \<and> x < n \<and> alphaSet png x y}"
  have "{(x, y') . y' = y \<and> x < n \<and> alphaSet png x y} \<subseteq> {..<n} \<times> {y}" by auto
  then have "finite {(x, y') . y' = y \<and> x < n \<and> alphaSet png x y}"
    by (rule finite_subset) simp
  then have finT: "finite ?T" using fin by simp
  have n: "n < png_width png" "n \<le> png_width png" using Suc.prems by simp_all
  have step: "(if alphaSet png n y then insert (n, y) ?T else ?T) =
              S \<union> {(x, y') . y' = y \<and> x < Suc n \<and> alphaSet png x y}"
    by (auto simp: less_Suc_eq)
  show ?case
    using Suc.IH [OF n(2)] scanPixel_boundsOf [OF finT n(1) y] step by simp
qed

lemma scanRow_boundsOf:
  assumes fin: "finite S" and y: "y < png_height png"
  shows "scanRow png y (boundsOf (png_width png) (png_height png) S) =
         boundsOf (png_width png) (png_height png)
           (S \<union> {(x, y') . y' = y \<and> x < png_width png \<and> alphaSet png x y})"
  unfolding scanRow_def using scanRow_prefix [OF fin y, of "png_width png"] by simp

lemma opaque_finite: "finite {(x, y). x < w \<and> y < m \<and> alphaSet png x y}"
proof -
  have "{(x, y). x < w \<and> y < m \<and> alphaSet png x y} \<subseteq> {..<w} \<times> {..<m}" by auto
  then show ?thesis by (rule finite_subset) simp
qed

lemma scanRows_prefix:
  "m \<le> png_height png \<Longrightarrow>
   fold (scanRow png) [0..<m] (boundsOf (png_width png) (png_height png) {}) =
   boundsOf (png_width png) (png_height png) {(x, y). x < png_width png \<and> y < m \<and> alphaSet png x y}"
proof (induction m)
  case 0
  show ?case by simp
next
  case (Suc m)
  let ?T = "{(x, y). x < png_width png \<and> y < m \<and> alphaSet png x y}"
  have finT: "finite ?T" by (rule opaque_finite)
  have m: "m < png_height png" "m \<le> png_height png" using Suc.prems by simp_all
  have step: "?T \<union> {(x, y') . y' = m \<and> x < png_width png \<and> alphaSet png x m} =
              {(x, y). x < png_width png \<and> y < Suc m \<and> alphaSet png x y}"
    by (auto simp: less_Suc_eq)
  show ?case
    using Suc.IH [OF m(2)] scanRow_boundsOf [OF finT m(1)] step by simp
qed

lemma scanMask_boundsOf:
  "scanMask png =
   boundsOf (png_width png) (png_height png)
     {(x, y). x < png_width png \<and> y < png_height png \<and> alphaSet png x y}"
  using scanRows_prefix [of "png_height png" png] by (simp add: scanMask_def boundsOf_def)

lemma set_opaqueXs:
  "set (opaqueXs png) = fst ` {(x, y). x < png_width png \<and> y < png_height png \<and> alphaSet png x y}"
  by (force simp: opaqueXs_def list_ex_iff)

lemma set_opaqueYs:
  "set (opaqueYs png) = snd ` {(x, y). x < png_width png \<and> y < png_height png \<and> alphaSet png x y}"
  by (force simp: opaqueYs_def list_ex_iff)

lemma scanMask_empty:
  assumes "opaqueXs png = []"
  shows "scanMask png = (int (png_width png), int (png_height png), - 1, - 1)"
proof -
  have "fst ` {(x, y). x < png_width png \<and> y < png_height png \<and> alphaSet png x y} = {}"
    using assms set_opaqueXs [of png] by simp
  then have "{(x, y). x < png_width png \<and> y < png_height png \<and> alphaSet png x y} = {}"
    by (simp only: image_is_empty)
  then show ?thesis by (simp add: scanMask_boundsOf boundsOf_def)
qed

lemma scanMask_nonempty:
  assumes "opaqueXs png \<noteq> []"
  shows "scanMask png =
         (int (Min (set (opaqueXs png))), int (Min (set (opaqueYs png))),
          int (Max (set (opaqueXs png))), int (Max (set (opaqueYs png))))"
proof -
  define S where "S = {(x, y). x < png_width png \<and> y < png_height png \<and> alphaSet png x y}"
  have xs: "set (opaqueXs png) = fst ` S" unfolding S_def by (rule set_opaqueXs)
  have ys: "set (opaqueYs png) = snd ` S" unfolding S_def by (rule set_opaqueYs)
  have "set (opaqueXs png) \<noteq> {}" using assms by simp
  then have ne: "S \<noteq> {}" unfolding xs by (simp only: image_is_empty not_False_eq_True)
  have "scanMask png = boundsOf (png_width png) (png_height png) S"
    unfolding S_def by (rule scanMask_boundsOf)
  also have "\<dots> = (int (Min (fst ` S)), int (Min (snd ` S)), int (Max (fst ` S)), int (Max (snd ` S)))"
    using ne by (simp add: boundsOf_def)
  finally show ?thesis unfolding xs ys .
qed

lemma opaqueXs_nonempty_iff:
  "(opaqueXs png \<noteq> []) = (\<exists>x y. x < png_width png \<and> y < png_height png \<and> alphaSet png x y)"
proof -
  have "(opaqueXs png \<noteq> []) = (set (opaqueXs png) \<noteq> {})" by simp
  also have "\<dots> = (\<exists>x y. x < png_width png \<and> y < png_height png \<and> alphaSet png x y)"
    unfolding set_opaqueXs by auto
  finally show ?thesis .
qed

lemma maskToBoundary_error:
  "pngRead maskBuffer = Inl e \<Longrightarrow>
   maskToBoundary pngRead maskBuffer label score pageIndex idx customTypes = None"
  by (simp add: maskToBoundary_def)

lemma maskToBoundary_empty:
  "pngRead maskBuffer = Inr png \<Longrightarrow> opaqueXs png = [] \<Longrightarrow>
   maskToBoundary pngRead maskBuffer label score pageIndex idx customTypes = None"
  by (simp add: maskToBoundary_def scanMask_empty)

lemma maskToBoundary_some:
  assumes "pngRead maskBuffer = Inr png" "opaqueXs png \<noteq> []"
  shows "maskToBoundary pngRead maskBuffer label score pageIndex idx customTypes =
         Some \<lparr>rd_id = ''hf-room-'' @ showInt pageIndex @ ''-'' @ decimal idx,
               rd_label = labelToRoomType label,
               rd_type = labelToRoomType label,
               rd_confidence = Num (numberToFixed2 (min (max score (lit (1 / 10))) (lit (99 / 100)))),
               rd_boundary =
                 \<lparr>bnd_x = fdiv (of_nat (Min (set (opaqueXs png)))) (of_nat (png_width png)),
                  bnd_y = fdiv (of_nat (Min (set (opaqueYs png)))) (of_nat (png_height png)),
                  bnd_width =
                    max (fdiv (of_int (int (Max (set (opaqueXs png))) - int (Min (set (opaqueXs png)))))
                           (of_nat (png_width png)))
                        (lit (5 / 100)),
                  bnd_height =
                    max (fdiv (of_int (int (Max (set (opaqueYs png))) - int (Min (set (opaqueYs png)))))
                           (of_nat (png_height png)))
                        (lit (5 / 100))\<rparr>,
               rd_color = getRoomColor (labelToRoomType label) customTypes,
               rd_manual = None\<rparr>"
  using assms by (simp add: maskToBoundary_def scanMask_nonempty Let_def)

lemma single_pixel_lists:
  assumes px: "px < png_width png" and py: "py < png_height png"
    and only: "\<And>x y. x < png_width png \<Longrightarrow> y < png_height png \<Longrightarrow> alphaSet png x y = (x = px \<and> y = py)"
  shows "set (opaqueXs png) = {px} \<and> set (opaqueYs png) = {py}"
proof -
  have "{(x, y). x < png_width png \<and> y < png_height png \<and> alphaSet png x y} = {(px, py)}"
    using px py only by auto
  then show ?thesis by (simp add: set_opaqueXs set_opaqueYs)
qed

lemma single_pixel_detection:
  assumes rd: "pngRead maskBuffer = Inr png"
    and px: "px < png_width png" and py: "py < png_height png"
    and only: "\<And>x y. x < png_width png \<Longrightarrow> y < png_height png \<Longrightarrow> alphaSet png x y = (x = px \<and> y = py)"
  shows "\<exists>detection. maskToBoundary pngRead maskBuffer label score pageIndex idx customTypes = Some detection \<and>
           rd_boundary detection =
             \<lparr>bnd_x = fdiv (of_nat px) (of_nat (png_width png)),
              bnd_y = fdiv (of_nat py) (of_nat (png_height png)),
              bnd_width = lit (5 / 100), bnd_height = lit (5 / 100)\<rparr>"
proof -
  note s = single_pixel_lists [OF px py only]
  have ne: "opaqueXs png \<noteq> []" using s by auto
  have "0 \<le> lit (5 / 100)" unfolding lit_def by (rule fl_nonneg) simp
  then have z: "max (fdiv 0 d) (lit (5 / 100)) = lit (5 / 100)" for d
    by (simp add: fdiv_def fl_0 max_def)
  show ?thesis
    unfolding maskToBoundary_some [of pngRead maskBuffer png, OF rd ne] using s z by simp
qed

lemma segmentLoop_eq:
  "idx \<le> length segments \<Longrightarrow>
   segmentLoop pngRead fromBase64 pageIndex customTypes segments idx detections =
   detections @ List.map_filter
     (\<lambda>i. segmentDetection pngRead fromBase64 pageIndex customTypes i (segments ! i))
     [idx..<length segments]"
proof (induction pngRead fromBase64 pageIndex customTypes segments idx detections
    rule: segmentLoop.induct)
  case (1 pngRead fromBase64 pageIndex customTypes segments idx detections)
  show ?case
  proof (cases "idx < length segments")
    case False
    then have "idx = length segments" using "1.prems" by simp
    then show ?thesis by (simp add: segmentLoop.simps [of _ _ _ _ segments "length segments"] map_filter_simps)
  next
    case True
    then have le: "idx + 1 \<le> length segments" by simp
    have upt: "[idx..<length segments] = idx # [idx + 1..<length segments]"
      using True by (simp add: upt_conv_Cons)
    show ?thesis
    proof (cases "segmentDetection pngRead fromBase64 pageIndex customTypes idx (segments ! idx)")
      case None
      then show ?thesis
        using "1.IH"(1) [OF True None le] True
        by (simp add: segmentLoop.simps [of _ _ _ _ segments idx] upt map_filter_simps)
    next
      case (Some d)
      then show ?thesis
        using "1.IH"(2) [OF True Some le] True
        by (simp add: segmentLoop.simps [of _ _ _ _ segments idx] upt map_filter_simps)
    qed
  qed
qed

lemma analyzePageWithHf_eq:
  "analyzePageWithHf pngRead fromBase64 segments pageIndex customTypes =
   List.map_filter
     (\<lambda>i. segmentDetection pngRead fromBase64 pageIndex customTypes i (segments ! i))
     [0..<length segments]"
  by (simp add: analyzePageWithHf_def segmentLoop_eq)

lemma lastColumnMask_alpha: "alphaSet lastColumnMask x 0 = (x = 20)" if "x < 21"
proof -
  have "x * 4 + 3 < 83 \<longleftrightarrow> x < 20" by presburger
  moreover have "x * 4 + 3 - 83 = 0" if "\<not> x < 20" using that \<open>x < 21\<close> by simp
  ultimately show ?thesis using that
    by (auto simp: alphaSet_def lastColumnMask_def nth_append)
qed

lemma onePixelMask_alpha:
  "\<forall>x y. x < png_width onePixelMask \<longrightarrow> y < png_height onePixelMask \<longrightarrow>
     alphaSet onePixelMask x y = (x = 1 \<and> y = 1)"
proof (intro allI impI)
  fix x y
  assume "x < png_width onePixelMask" "y < png_height onePixelMask"
  then have xy: "(x = 0 \<or> x = 1) \<and> (y = 0 \<or> y = 1)" by (auto simp: onePixelMask_def)
  have "\<not> alphaSet onePixelMask 0 0" "\<not> alphaSet onePixelMask 0 1"
    "\<not> alphaSet onePixelMask 1 0" "alphaSet onePixelMask 1 1"
    by code_simp+
  then show "alphaSet onePixelMask x y = (x = 1 \<and> y = 1)" using xy by auto
qed

section \<open>Properties of the mask extractor\<close>

text \<open>
  C2. When the mask decodes and some pixel has an alpha above zero, the extractor returns
  the box of the pixels whose alpha is above zero, normalised by the image's width and
  height: \<open>x\<close> is the least column over the width, \<open>y\<close> the least row over the height, and the
  width and the height are the distance from the least to the greatest column and row over
  the width and the height, or 0.05 if that is more. Every such pixel has its column and
  its row between the least and the greatest. The divisions are those of binary64.
\<close>

theorem maskToBoundary_bounding_box:
  assumes "pngRead maskBuffer = Inr png"
    and "x < png_width png" and "y < png_height png" and "alphaSet png x y"
  shows "\<exists>detection.
           maskToBoundary pngRead maskBuffer label score pageIndex idx customTypes = Some detection \<and>
           rd_boundary detection =
             \<lparr>bnd_x = fdiv (of_nat (Min (set (opaqueXs png)))) (of_nat (png_width png)),
              bnd_y = fdiv (of_nat (Min (set (opaqueYs png)))) (of_nat (png_height png)),
              bnd_width =
                max (fdiv (of_int (int (Max (set (opaqueXs png))) - int (Min (set (opaqueXs png)))))
                       (of_nat (png_width png)))
                    (lit (5 / 100)),
              bnd_height =
                max (fdiv (of_int (int (Max (set (opaqueYs png))) - int (Min (set (opaqueYs png)))))
                       (of_nat (png_height png)))
                    (lit (5 / 100))\<rparr> \<and>
           Min (set (opaqueXs png)) \<le> x \<and> x \<le> Max (set (opaqueXs png)) \<and>
           Min (set (opaqueYs png)) \<le> y \<and> y \<le> Max (set (opaqueYs png))"
proof -
  have ne: "opaqueXs png \<noteq> []" using assms(2-4) opaqueXs_nonempty_iff [of png] by blast
  have "x \<in> set (opaqueXs png)" using assms(2-4) unfolding set_opaqueXs by force
  then have bx: "Min (set (opaqueXs png)) \<le> x \<and> x \<le> Max (set (opaqueXs png))" by simp
  have "y \<in> set (opaqueYs png)" using assms(2-4) unfolding set_opaqueYs by force
  then have by': "Min (set (opaqueYs png)) \<le> y \<and> y \<le> Max (set (opaqueYs png))" by simp
  show ?thesis
    unfolding maskToBoundary_some [of pngRead maskBuffer png, OF assms(1) ne] using bx by' by simp
qed

theorem maskToBoundary_bounding_box_witness:
  "alphaSet twoPixelMask 1 0 \<and>
   (\<exists>detection.
      maskToBoundary (\<lambda>buffer. Inr twoPixelMask) [] ''Kitchen'' (9 / 10) 0 0 [] = Some detection \<and>
      rd_boundary detection = \<lparr>bnd_x = 1 / 4, bnd_y = 0, bnd_width = 1 / 2, bnd_height = 1 / 2\<rparr>)"
proof -
  have a: "alphaSet twoPixelMask 1 0" by code_simp
  have w: "(1::nat) < png_width twoPixelMask" "(0::nat) < png_height twoPixelMask"
    by (simp_all add: twoPixelMask_def)
  have e:
    "\<lparr>bnd_x = fdiv (of_nat (Min (set (opaqueXs twoPixelMask)))) (of_nat (png_width twoPixelMask)),
      bnd_y = fdiv (of_nat (Min (set (opaqueYs twoPixelMask)))) (of_nat (png_height twoPixelMask)),
      bnd_width =
        max (fdiv (of_int (int (Max (set (opaqueXs twoPixelMask))) - int (Min (set (opaqueXs twoPixelMask)))))
               (of_nat (png_width twoPixelMask)))
            (lit (5 / 100)),
      bnd_height =
        max (fdiv (of_int (int (Max (set (opaqueYs twoPixelMask))) - int (Min (set (opaqueYs twoPixelMask)))))
               (of_nat (png_height twoPixelMask)))
            (lit (5 / 100))\<rparr>
     = \<lparr>bnd_x = 1 / 4, bnd_y = 0, bnd_width = 1 / 2, bnd_height = 1 / 2\<rparr>"
    by code_simp
  show ?thesis
    using a maskToBoundary_bounding_box [of "\<lambda>buffer. Inr twoPixelMask" "[]" twoPixelMask 1 0
        "''Kitchen''" "9 / 10" 0 0 "[]", OF refl w a]
    unfolding e by blast
qed

text \<open>
  C3. A mask of width \<open>W\<close> and height \<open>H\<close> with exactly one pixel of alpha above zero, at
  \<open>(px, py)\<close>, gives the boundary \<open>x = px / W\<close>, \<open>y = py / H\<close>, with the width and the height
  both the binary64 value of 0.05, which is at least 0.05: the floor applies to the width
  and the height, not to \<open>x\<close> or \<open>y\<close>.
\<close>

theorem maskToBoundary_single_pixel:
  assumes "pngRead maskBuffer = Inr png"
    and "px < png_width png" and "py < png_height png"
    and "\<forall>x y. x < png_width png \<longrightarrow> y < png_height png \<longrightarrow> alphaSet png x y = (x = px \<and> y = py)"
  shows "\<exists>detection.
           maskToBoundary pngRead maskBuffer label score pageIndex idx customTypes = Some detection \<and>
           rd_boundary detection =
             \<lparr>bnd_x = fdiv (of_nat px) (of_nat (png_width png)),
              bnd_y = fdiv (of_nat py) (of_nat (png_height png)),
              bnd_width = lit (5 / 100), bnd_height = lit (5 / 100)\<rparr> \<and>
           5 / 100 \<le> bnd_width (rd_boundary detection) \<and> 5 / 100 \<le> bnd_height (rd_boundary detection)"
proof -
  have l: "5 / 100 \<le> lit (5 / 100)" by code_simp
  obtain detection where
    "maskToBoundary pngRead maskBuffer label score pageIndex idx customTypes = Some detection"
    "rd_boundary detection =
             \<lparr>bnd_x = fdiv (of_nat px) (of_nat (png_width png)),
              bnd_y = fdiv (of_nat py) (of_nat (png_height png)),
              bnd_width = lit (5 / 100), bnd_height = lit (5 / 100)\<rparr>"
    using single_pixel_detection [of pngRead maskBuffer png px py label score pageIndex idx customTypes]
      assms by blast
  then show ?thesis using l by simp
qed

theorem maskToBoundary_single_pixel_witness:
  "\<exists>detection.
     maskToBoundary (\<lambda>buffer. Inr onePixelMask) [] ''Office'' (1 / 2) 3 0 [] = Some detection \<and>
     rd_boundary detection =
       \<lparr>bnd_x = 1 / 2, bnd_y = 1 / 2, bnd_width = lit (5 / 100), bnd_height = lit (5 / 100)\<rparr>"
proof -
  have w: "(1::nat) < png_width onePixelMask" "(1::nat) < png_height onePixelMask"
    by (simp_all add: onePixelMask_def)
  have e: "fdiv (of_nat 1) (of_nat (png_width onePixelMask)) = 1 / 2"
    "fdiv (of_nat 1) (of_nat (png_height onePixelMask)) = 1 / 2"
    by code_simp+
  show ?thesis
    using maskToBoundary_single_pixel [of "\<lambda>buffer. Inr onePixelMask" "[]" onePixelMask 1 1
        "''Office''" "1 / 2" 3 0 "[]", OF refl w onePixelMask_alpha]
    unfolding e by blast
qed

text \<open>
  C9. The floor of 0.05 on the width is not followed by a clamp of \<open>x + width\<close>: for the
  mask with one opaque pixel in the last of 21 columns the extractor returns
  \<open>x = 20 / 21\<close> and the width 0.05, and \<open>x + width\<close> is above 1, as an exact sum and as
  the binary64 sum.
\<close>

theorem maskToBoundary_overflow:
  "\<exists>detection.
     maskToBoundary (\<lambda>buffer. Inr lastColumnMask) maskBuffer label score pageIndex idx customTypes
       = Some detection \<and>
     bnd_x (rd_boundary detection) = fdiv 20 21 \<and>
     bnd_width (rd_boundary detection) = lit (5 / 100) \<and>
     1 < bnd_x (rd_boundary detection) + bnd_width (rd_boundary detection) \<and>
     1 < fadd (bnd_x (rd_boundary detection)) (bnd_width (rd_boundary detection))"
proof -
  have w: "(20::nat) < png_width lastColumnMask" "(0::nat) < png_height lastColumnMask"
    by (simp_all add: lastColumnMask_def)
  have d: "png_width lastColumnMask = 21" "png_height lastColumnMask = 1" by (simp_all add: lastColumnMask_def)
  have only: "alphaSet lastColumnMask x y = (x = 20 \<and> y = 0)"
    if "x < png_width lastColumnMask" "y < png_height lastColumnMask" for x y
    using that lastColumnMask_alpha [of x] by (simp add: d)
  have n: "1 < fdiv 20 21 + lit (5 / 100) \<and> 1 < fadd (fdiv 20 21) (lit (5 / 100))" by code_simp
  obtain detection where
    "maskToBoundary (\<lambda>buffer. Inr lastColumnMask) maskBuffer label score pageIndex idx customTypes
       = Some detection"
    "rd_boundary detection =
             \<lparr>bnd_x = fdiv (of_nat 20) (of_nat (png_width lastColumnMask)),
              bnd_y = fdiv (of_nat 0) (of_nat (png_height lastColumnMask)),
              bnd_width = lit (5 / 100), bnd_height = lit (5 / 100)\<rparr>"
    using single_pixel_detection [of "\<lambda>buffer. Inr lastColumnMask" maskBuffer lastColumnMask 20 0
        label score pageIndex idx customTypes, OF refl w only] by blast
  then show ?thesis using n by (simp add: d)
qed

text \<open>
  C6. The extractor fails closed. When the buffer cannot be decoded the result is absent,
  and when the mask decodes and no pixel has an alpha above zero the result is absent; the
  result is a value in both cases, never an error. The loop over the segments of a page
  returns the detections of exactly those segments for which the extractor gives one, in
  their order: a segment without a detection is passed over and the segments after it are
  still processed.
\<close>

theorem maskToBoundary_fails_closed:
  "(pngRead maskBuffer = Inl error \<longrightarrow>
      maskToBoundary pngRead maskBuffer label score pageIndex idx customTypes = None) \<and>
   (pngRead maskBuffer = Inr png \<and>
      (\<forall>x y. x < png_width png \<longrightarrow> y < png_height png \<longrightarrow> \<not> alphaSet png x y) \<longrightarrow>
      maskToBoundary pngRead maskBuffer label score pageIndex idx customTypes = None) \<and>
   analyzePageWithHf pngRead fromBase64 segments pageIndex customTypes =
     List.map_filter
       (\<lambda>i. segmentDetection pngRead fromBase64 pageIndex customTypes i (segments ! i))
       [0..<length segments]"
proof (intro conjI impI)
  assume "pngRead maskBuffer = Inl error"
  then show "maskToBoundary pngRead maskBuffer label score pageIndex idx customTypes = None"
    by (rule maskToBoundary_error)
next
  assume a: "pngRead maskBuffer = Inr png \<and>
      (\<forall>x y. x < png_width png \<longrightarrow> y < png_height png \<longrightarrow> \<not> alphaSet png x y)"
  then have "opaqueXs png = []" using opaqueXs_nonempty_iff [of png] by blast
  then show "maskToBoundary pngRead maskBuffer label score pageIndex idx customTypes = None"
    using a maskToBoundary_empty [of pngRead maskBuffer png] by blast
next
  show "analyzePageWithHf pngRead fromBase64 segments pageIndex customTypes =
     List.map_filter
       (\<lambda>i. segmentDetection pngRead fromBase64 pageIndex customTypes i (segments ! i))
       [0..<length segments]"
    by (rule analyzePageWithHf_eq)
qed

theorem maskToBoundary_fails_closed_witness:
  "examplePngRead [0] = Inl ''Invalid file signature'' \<and>
   maskToBoundary examplePngRead [0] ''kitchen'' (9 / 10) 0 0 [] = None \<and>
   examplePngRead [2] = Inr emptyMask \<and>
   maskToBoundary examplePngRead [2] ''hall'' (1 / 2) 0 2 [] = None \<and>
   map rd_id (analyzePageWithHf examplePngRead exampleFromBase64 exampleSegments 0 []) = [''hf-room-0-1'']"
proof -
  have r0: "examplePngRead [0] = Inl ''Invalid file signature''" by (simp add: examplePngRead_def)
  have r2: "examplePngRead [2] = Inr emptyMask" by (simp add: examplePngRead_def)
  have e: "\<forall>x y. x < png_width emptyMask \<longrightarrow> y < png_height emptyMask \<longrightarrow> \<not> alphaSet emptyMask x y"
  proof (intro allI impI)
    fix x y
    assume "x < png_width emptyMask" "y < png_height emptyMask"
    then have xy: "(x = 0 \<or> x = 1) \<and> y = 0" by (auto simp: emptyMask_def)
    have "\<not> alphaSet emptyMask 0 0" "\<not> alphaSet emptyMask 1 0" by code_simp+
    then show "\<not> alphaSet emptyMask x y" using xy by auto
  qed
  have m: "map rd_id (List.map_filter
       (\<lambda>i. segmentDetection examplePngRead exampleFromBase64 0 [] i (exampleSegments ! i))
       [0..<length exampleSegments]) = [''hf-room-0-1'']"
    by code_simp
  note t0 = maskToBoundary_fails_closed [of examplePngRead "[0]" "''Invalid file signature''"
      "''kitchen''" "9 / 10" 0 0 "[]" emptyMask exampleFromBase64 exampleSegments]
  note t2 = maskToBoundary_fails_closed [of examplePngRead "[2]" "''Invalid file signature''"
      "''hall''" "1 / 2" 0 2 "[]" emptyMask exampleFromBase64 exampleSegments]
  show ?thesis using r0 r2 e m t0 t2 by simp
qed

section \<open>Properties of the label mapping\<close>


section \<open>Properties of the confidence\<close>

lemma toFixed2_nonneg:
  assumes "0 \<le> x" "x < 1"
  shows "toFixed2 x = of_int \<lfloor>x * 100 + 1 / 2\<rfloor> / 100"
proof (cases "x = 0")
  case True
  have "\<lfloor>1 / 2 :: rat\<rfloor> = 0" by (simp add: floor_eq_iff)
  then show ?thesis using True by (simp add: toFixed2_def)
next
  case False
  then have "0 < x" using assms by simp
  then show ?thesis using assms by (simp add: toFixed2_def)
qed

lemma confidence_value:
  "numberToFixed2 (min (max score (lit (1 / 10))) (lit (99 / 100))) =
   lit (of_int \<lfloor>100 * min (max score (1 / 10)) (99 / 100) + 1 / 2\<rfloor> / 100)"
proof -
  define lo :: rat where "lo = 3602879701896397 / 36028797018963968"
  define hi :: rat where "hi = 4458563631096791 / 4503599627370496"
  have lo: "lit (1 / 10) = lo" unfolding lit_def lo_def by code_simp
  have hi: "lit (99 / 100) = hi" unfolding lit_def hi_def by code_simp
  define cd where "cd = min (max score lo) hi"
  define cr :: rat where "cr = min (max score (1 / 10)) (99 / 100)"
  have cdr: "lo \<le> cd" "cd \<le> hi" by (simp_all add: cd_def lo_def hi_def)
  then have "0 \<le> cd" "cd < 1" by (simp_all add: lo_def hi_def)
  then have tf: "toFixed2 cd = of_int \<lfloor>cd * 100 + 1 / 2\<rfloor> / 100" by (rule toFixed2_nonneg)
  have "\<lfloor>cd * 100 + 1 / 2\<rfloor> = \<lfloor>100 * cr + 1 / 2\<rfloor>"
  proof -
    consider "score < lo" | "lo \<le> score" "score \<le> hi" | "hi < score" by linarith
    then show ?thesis
    proof cases
      case 1
      then have "cd = lo" by (simp add: cd_def lo_def hi_def)
      then have a: "\<lfloor>cd * 100 + 1 / 2\<rfloor> = 10" by (simp add: lo_def floor_eq_iff)
      have "1 / 10 \<le> cr" "cr \<le> lo" using 1 by (simp_all add: cr_def lo_def)
      then have "\<lfloor>100 * cr + 1 / 2\<rfloor> = 10" by (simp add: floor_eq_iff lo_def)
      then show ?thesis using a by simp
    next
      case 2
      then have "cd = score" "cr = score" by (simp_all add: cd_def cr_def lo_def hi_def)
      then show ?thesis by (simp add: mult.commute)
    next
      case 3
      then have "cd = hi" by (simp add: cd_def lo_def hi_def)
      then have a: "\<lfloor>cd * 100 + 1 / 2\<rfloor> = 99" by (simp add: hi_def floor_eq_iff)
      have "hi \<le> cr" "cr \<le> 99 / 100" using 3 by (simp_all add: cr_def hi_def)
      then have "\<lfloor>100 * cr + 1 / 2\<rfloor> = 99" by (simp add: floor_eq_iff hi_def)
      then show ?thesis using a by simp
    qed
  qed
  then have eq: "toFixed2 cd = of_int \<lfloor>100 * cr + 1 / 2\<rfloor> / 100" using tf by (simp only:)
  have "numberToFixed2 (min (max score (lit (1 / 10))) (lit (99 / 100))) = fl (toFixed2 cd)"
    unfolding numberToFixed2_def lo hi cd_def ..
  also have "\<dots> = fl (of_int \<lfloor>100 * cr + 1 / 2\<rfloor> / 100)" by (simp only: eq)
  also have "\<dots> = lit (of_int \<lfloor>100 * min (max score (1 / 10)) (99 / 100) + 1 / 2\<rfloor> / 100)"
    unfolding lit_def cr_def ..
  finally show ?thesis .
qed

lemma detection_confidence:
  "maskToBoundary pngRead maskBuffer label score pageIndex idx customTypes = Some detection \<Longrightarrow>
   rd_confidence detection = Num (numberToFixed2 (min (max score (lit (1 / 10))) (lit (99 / 100))))"
  by (auto simp: maskToBoundary_def Let_def split: sum.splits prod.splits if_splits)

text \<open>
  C8. The confidence of a detection of the extractor is the score clamped to
  \<open>[0.10, 0.99]\<close> and rounded to two decimal digits (the nearer one, the upper one of two
  equally near), as the binary64 value of that decimal. A score of 1.5 gives 0.99 and a
  score of 0 gives 0.10.
\<close>

theorem maskToBoundary_confidence:
  assumes "maskToBoundary pngRead maskBuffer label score pageIndex idx customTypes = Some detection"
  shows "rd_confidence detection =
         Num (lit (of_int \<lfloor>100 * min (max score (1 / 10)) (99 / 100) + 1 / 2\<rfloor> / 100))"
  using detection_confidence [OF assms] by (simp only: confidence_value)

theorem maskToBoundary_confidence_witness:
  "(\<exists>detection.
      maskToBoundary (\<lambda>buffer. Inr onePixelMask) [] ''Office'' (3 / 2) 0 0 [] = Some detection \<and>
      rd_confidence detection = Num (lit (99 / 100))) \<and>
   (\<exists>detection.
      maskToBoundary (\<lambda>buffer. Inr onePixelMask) [] ''Office'' 0 0 0 [] = Some detection \<and>
      rd_confidence detection = Num (lit (10 / 100)))"
proof -
  have w: "(1::nat) < png_width onePixelMask" "(1::nat) < png_height onePixelMask"
    by (simp_all add: onePixelMask_def)
  have only: "alphaSet onePixelMask x y = (x = 1 \<and> y = 1)"
    if "x < png_width onePixelMask" "y < png_height onePixelMask" for x y
    using that onePixelMask_alpha by blast
  have f1: "(of_int \<lfloor>100 * min (max (3 / 2 :: rat) (1 / 10)) (99 / 100) + 1 / 2\<rfloor> / 100 :: rat) = 99 / 100"
    by code_simp
  have f0: "(of_int \<lfloor>100 * min (max (0 :: rat) (1 / 10)) (99 / 100) + 1 / 2\<rfloor> / 100 :: rat) = 10 / 100"
    by code_simp
  obtain d1 where d1: "maskToBoundary (\<lambda>buffer. Inr onePixelMask) [] ''Office'' (3 / 2) 0 0 [] = Some d1"
    using single_pixel_detection [of "\<lambda>buffer. Inr onePixelMask" "[]" onePixelMask 1 1
        "''Office''" "3 / 2" 0 0 "[]", OF refl w only] by blast
  obtain d0 where d0: "maskToBoundary (\<lambda>buffer. Inr onePixelMask) [] ''Office'' 0 0 0 [] = Some d0"
    using single_pixel_detection [of "\<lambda>buffer. Inr onePixelMask" "[]" onePixelMask 1 1
        "''Office''" 0 0 0 "[]", OF refl w only] by blast
  have "rd_confidence d1 = Num (lit (99 / 100))"
    using maskToBoundary_confidence [OF d1] unfolding f1 .
  moreover have "rd_confidence d0 = Num (lit (10 / 100))"
    using maskToBoundary_confidence [OF d0] unfolding f0 .
  ultimately show ?thesis using d1 d0 by blast
qed

lemma base_colors: "d \<in> set baseRoomTypes \<Longrightarrow> rt_color d \<noteq> ''#94A3B8''"
  unfolding baseRoomTypes_def by (elim set_ConsD [elim_format] disjE) simp_all

lemma base_find_iff:
  "(find (\<lambda>def. rt_label def = type) baseRoomTypes = None) = (type \<notin> rt_label ` set baseRoomTypes)"
  by (auto simp: find_None_iff)

lemma getRoomColor_none:
  "type \<notin> rt_label ` set baseRoomTypes \<Longrightarrow> type \<notin> rt_label ` set customTypes \<Longrightarrow>
   getRoomColor type customTypes = ''#94A3B8''"
proof -
  assume a: "type \<notin> rt_label ` set baseRoomTypes" and b: "type \<notin> rt_label ` set customTypes"
  have "find (\<lambda>def. rt_label def = type) baseRoomTypes = None" using a by (auto simp: find_None_iff)
  moreover have "find (\<lambda>def. rt_label def = type) customTypes = None" using b by (auto simp: find_None_iff)
  ultimately show ?thesis by (simp add: getRoomColor_def)
qed

section \<open>Properties of the colour lookup\<close>

text \<open>
  C10, as amended. The base palette comes first: a key that is the label of a base room
  type gets that type's colour, whatever the custom types are, and that colour is not the
  neutral gray. A key that is neither a base label nor a custom label gets the neutral
  gray \<open>#94A3B8\<close>. A key that is a custom label only gets the colour of the first custom
  type with that label.
\<close>

theorem getRoomColor_precedence:
  "(find (\<lambda>def. rt_label def = type) baseRoomTypes = Some base \<longrightarrow>
      getRoomColor type customTypes = rt_color base \<and> rt_color base \<noteq> ''#94A3B8'') \<and>
   (type \<notin> rt_label ` set baseRoomTypes \<and> type \<notin> rt_label ` set customTypes \<longrightarrow>
      getRoomColor type customTypes = ''#94A3B8'') \<and>
   (type \<notin> rt_label ` set baseRoomTypes \<and>
      find (\<lambda>def. rt_label def = type) customTypes = Some custom \<longrightarrow>
      getRoomColor type customTypes = rt_color custom)"
proof (intro conjI impI)
  assume b: "find (\<lambda>def. rt_label def = type) baseRoomTypes = Some base"
  then show "getRoomColor type customTypes = rt_color base" by (simp add: getRoomColor_def)
  have "base \<in> set baseRoomTypes" using b by (auto simp: find_Some_iff)
  then show "rt_color base \<noteq> ''#94A3B8''" by (rule base_colors)
next
  assume "type \<notin> rt_label ` set baseRoomTypes \<and> type \<notin> rt_label ` set customTypes"
  then show "getRoomColor type customTypes = ''#94A3B8''" by (simp add: getRoomColor_none)
next
  assume a: "type \<notin> rt_label ` set baseRoomTypes \<and>
      find (\<lambda>def. rt_label def = type) customTypes = Some custom"
  then have "find (\<lambda>def. rt_label def = type) baseRoomTypes = None"
    using base_find_iff [of type] by blast
  then show "getRoomColor type customTypes = rt_color custom" using a by (simp add: getRoomColor_def)
qed

theorem getRoomColor_precedence_witness:
  "find (\<lambda>def. rt_label def = ''Kitchen'') baseRoomTypes
     = Some \<lparr>rt_label = ''Kitchen'', rt_color = ''#0EA5E9''\<rparr> \<and>
   getRoomColor ''Kitchen'' [\<lparr>rt_label = ''Kitchen'', rt_color = ''#000000''\<rparr>] = ''#0EA5E9'' \<and>
   ''Atrium'' \<notin> rt_label ` set baseRoomTypes \<and>
   getRoomColor ''Atrium'' [] = ''#94A3B8'' \<and>
   getRoomColor ''Atrium'' [\<lparr>rt_label = ''Atrium'', rt_color = ''#123456''\<rparr>] = ''#123456''"
proof -
  have k: "find (\<lambda>def. rt_label def = ''Kitchen'') baseRoomTypes
     = Some \<lparr>rt_label = ''Kitchen'', rt_color = ''#0EA5E9''\<rparr>"
    by (simp add: baseRoomTypes_def)
  have a: "''Atrium'' \<notin> rt_label ` set baseRoomTypes" by (simp add: baseRoomTypes_def)
  have c: "find (\<lambda>def. rt_label def = ''Atrium'') [\<lparr>rt_label = ''Atrium'', rt_color = ''#123456''\<rparr>]
     = Some \<lparr>rt_label = ''Atrium'', rt_color = ''#123456''\<rparr>"
    by simp
  show ?thesis
    using k a c
      getRoomColor_precedence [of "''Kitchen''" "\<lparr>rt_label = ''Kitchen'', rt_color = ''#0EA5E9''\<rparr>"
        "[\<lparr>rt_label = ''Kitchen'', rt_color = ''#000000''\<rparr>]" "\<lparr>rt_label = ''Kitchen'', rt_color = ''#0EA5E9''\<rparr>"]
      getRoomColor_precedence [of "''Atrium''" "\<lparr>rt_label = ''Kitchen'', rt_color = ''#0EA5E9''\<rparr>"
        "[]" "\<lparr>rt_label = ''Kitchen'', rt_color = ''#0EA5E9''\<rparr>"]
      getRoomColor_precedence [of "''Atrium''" "\<lparr>rt_label = ''Kitchen'', rt_color = ''#0EA5E9''\<rparr>"
        "[\<lparr>rt_label = ''Atrium'', rt_color = ''#123456''\<rparr>]" "\<lparr>rt_label = ''Atrium'', rt_color = ''#123456''\<rparr>"]
    by simp
qed

text \<open>
  The gray is not returned only when the key matches nothing: a custom type may have the
  gray as its own colour.
\<close>

theorem getRoomColor_gray_counterexample:
  "getRoomColor ''Atrium'' [\<lparr>rt_label = ''Atrium'', rt_color = ''#94A3B8''\<rparr>] = ''#94A3B8'' \<and>
   ''Atrium'' \<in> rt_label ` set [\<lparr>rt_label = ''Atrium'', rt_color = ''#94A3B8''\<rparr>]"
  by (simp add: getRoomColor_def baseRoomTypes_def)

end
